theory Spec2Isabelle
  imports Main
begin

section \<open>Lexer (package lexer)\<close>

text \<open>
  The lexer works on the rune sequence of the input. In this development a rune is an
  8-bit \<open>char\<close> (code points U+0000 to U+00FF); for ASCII text the rune sequence is the
  byte sequence itself. On that range Go's \<open>unicode.IsLetter\<close> holds for the ASCII
  letters and the Latin-1 letters listed in \<open>IsLetter\<close>, and \<open>unicode.IsDigit\<close> for
  the ASCII digits only. Go's \<open>int\<close> is the 64-bit signed integer: \<open>wrap64\<close> writes out
  its wrap-around where the lexer multiplies. Line and column counters are naturals.
\<close>

datatype TokenType =
    TokenEOF | TokenIdent | TokenNumber | TokenString
  | TokenLBrace | TokenRBrace | TokenLParen | TokenRParen
  | TokenComma | TokenDot | TokenSemicolon | TokenColonColonEq | TokenAssignEq

record Token =
  Type :: TokenType
  Text :: string
  IntVal :: int
  Line :: nat
  Col :: nat

record Lexer =
  input :: string
  line :: nat
  col :: nat

definition wrap64 :: "int \<Rightarrow> int" where
  "wrap64 x = (x + 9223372036854775808) mod 18446744073709551616 - 9223372036854775808"

definition IsLetter :: "char \<Rightarrow> bool" where
  "IsLetter r = (let n = (of_char r :: nat) in
     (65 \<le> n \<and> n \<le> 90) \<or> (97 \<le> n \<and> n \<le> 122) \<or> n = 170 \<or> n = 181 \<or> n = 186
     \<or> (192 \<le> n \<and> n \<le> 214) \<or> (216 \<le> n \<and> n \<le> 246) \<or> (248 \<le> n \<and> n \<le> 255))"

definition IsDigit :: "char \<Rightarrow> bool" where
  "IsDigit r = (let n = (of_char r :: nat) in 48 \<le> n \<and> n \<le> 57)"

definition isIdentStart :: "char \<Rightarrow> bool" where
  "isIdentStart r = IsLetter r"

definition isIdentRune :: "char \<Rightarrow> bool" where
  "isIdentRune r = (IsLetter r \<or> IsDigit r \<or> r = CHR ''-'')"

definition New :: "string \<Rightarrow> Lexer" where
  "New inp = \<lparr>input = inp, line = 1, col = 1\<rparr>"

definition eof :: "Lexer \<Rightarrow> bool" where
  "eof l = (input l = [])"

definition peekChar :: "Lexer \<Rightarrow> char" where
  "peekChar l = (case input l of _ # c # _ \<Rightarrow> c | _ \<Rightarrow> CHR 0x00)"

definition advance :: "Lexer \<Rightarrow> Lexer" where
  "advance l = (case input l of
      [] \<Rightarrow> l
    | r # rs \<Rightarrow> if r = CHR 0x0A then \<lparr>input = rs, line = line l + 1, col = 1\<rparr>
                else \<lparr>input = rs, line = line l, col = col l + 1\<rparr>)"

definition mk :: "Lexer \<Rightarrow> TokenType \<Rightarrow> string \<Rightarrow> Token" where
  "mk l t s = \<lparr>Type = t, Text = s, IntVal = 0, Line = line l, Col = col l\<rparr>"

lemma input_advance: "input (advance l) = tl (input l)"
  by (simp add: advance_def split: list.split)

lemma advance_length_le: "length (input (advance l)) \<le> length (input l)"
  by (simp add: advance_def split: list.split)

lemma advance_length_less: "input l \<noteq> [] \<Longrightarrow> length (input (advance l)) < length (input l)"
  by (simp add: advance_def split: list.split)

text \<open>The inner loop of a comment: advance up to, not past, the end of the line.\<close>

function skipToEol :: "Lexer \<Rightarrow> Lexer" where
  "skipToEol l = (case input l of
      [] \<Rightarrow> l
    | r # _ \<Rightarrow> if r \<noteq> CHR 0x0A then skipToEol (advance l) else l)"
  by pat_completeness auto
termination
  by (relation "measure (\<lambda>l. length (input l))") (auto simp: advance_def)

declare skipToEol.simps [simp del]

lemma skipToEol_length_le: "length (input (skipToEol l)) \<le> length (input l)"
proof (induction l rule: skipToEol.induct)
  case (1 l)
  show ?case
  proof (cases "input l")
    case Nil
    then show ?thesis by (simp add: skipToEol.simps [of l])
  next
    case (Cons r rs)
    show ?thesis
    proof (cases "r = CHR 0x0A")
      case True
      with Cons show ?thesis by (simp add: skipToEol.simps [of l])
    next
      case False
      with Cons 1 have "length (input (skipToEol (advance l))) \<le> length (input (advance l))"
        by simp
      moreover have "length (input (advance l)) \<le> length (input l)"
        by (rule advance_length_le)
      ultimately show ?thesis using Cons False by (simp add: skipToEol.simps [of l])
    qed
  qed
qed

function skipWhitespaceAndComments :: "Lexer \<Rightarrow> Lexer" where
  "skipWhitespaceAndComments l = (case input l of
      [] \<Rightarrow> l
    | r # _ \<Rightarrow>
        if r = CHR '' '' \<or> r = CHR 0x09 \<or> r = CHR 0x0D \<or> r = CHR 0x0A
          then skipWhitespaceAndComments (advance l)
        else if r = CHR ''-'' \<and> peekChar l = CHR ''-''
          then skipWhitespaceAndComments (skipToEol (advance (advance l)))
        else l)"
  by pat_completeness auto
termination
proof (relation "measure (\<lambda>l. length (input l))", goal_cases)
  case 1
  show ?case by simp
next
  case (2 l r rs)
  then show ?case by (simp add: input_advance)
next
  case (3 l r rs)
  have "length (input (skipToEol (advance (advance l)))) \<le> length (input (advance (advance l)))"
    by (rule skipToEol_length_le)
  also have "\<dots> \<le> length (input (advance l))"
    by (rule advance_length_le)
  also have "\<dots> < length (input l)"
    using 3 by (simp add: input_advance)
  finally show ?case by simp
qed

declare skipWhitespaceAndComments.simps [simp del]

lemma skipWhitespaceAndComments_length_le:
  "length (input (skipWhitespaceAndComments l)) \<le> length (input l)"
proof (induction l rule: skipWhitespaceAndComments.induct)
  case (1 l)
  show ?case
  proof (cases "input l")
    case Nil
    then show ?thesis by (simp add: skipWhitespaceAndComments.simps [of l])
  next
    case (Cons r rs)
    consider (ws) "r = CHR '' '' \<or> r = CHR 0x09 \<or> r = CHR 0x0D \<or> r = CHR 0x0A"
      | (cm) "\<not> (r = CHR '' '' \<or> r = CHR 0x09 \<or> r = CHR 0x0D \<or> r = CHR 0x0A)"
             "r = CHR ''-'' \<and> peekChar l = CHR ''-''"
      | (no) "\<not> (r = CHR '' '' \<or> r = CHR 0x09 \<or> r = CHR 0x0D \<or> r = CHR 0x0A)"
             "\<not> (r = CHR ''-'' \<and> peekChar l = CHR ''-'')"
      by blast
    then show ?thesis
    proof cases
      case ws
      with Cons 1(1) have "length (input (skipWhitespaceAndComments (advance l)))
          \<le> length (input (advance l))" by blast
      moreover have "length (input (advance l)) \<le> length (input l)"
        by (rule advance_length_le)
      moreover have "skipWhitespaceAndComments l = skipWhitespaceAndComments (advance l)"
        using Cons ws by (simp add: skipWhitespaceAndComments.simps [of l])
      ultimately show ?thesis by simp
    next
      case cm
      with Cons 1(2) have "length (input (skipWhitespaceAndComments (skipToEol (advance (advance l)))))
          \<le> length (input (skipToEol (advance (advance l))))" by blast
      moreover have "length (input (skipToEol (advance (advance l)))) \<le> length (input l)"
        using skipToEol_length_le [of "advance (advance l)"] advance_length_le [of "advance l"]
          advance_length_le [of l] by linarith
      moreover have "skipWhitespaceAndComments l
          = skipWhitespaceAndComments (skipToEol (advance (advance l)))"
        using Cons cm by (simp add: skipWhitespaceAndComments.simps [of l])
      ultimately show ?thesis by simp
    next
      case no
      have "skipWhitespaceAndComments l = l"
        using Cons no by (subst skipWhitespaceAndComments.simps) auto
      then show ?thesis by simp
    qed
  qed
qed

text \<open>The identifier loop of \<open>Next\<close>: collect runes while \<open>isIdent\<close> holds.\<close>

function readIdent :: "Lexer \<Rightarrow> string \<Rightarrow> string \<times> Lexer" where
  "readIdent l s = (case input l of
      [] \<Rightarrow> (s, l)
    | r # _ \<Rightarrow> if isIdentRune r then readIdent (advance l) (s @ [r]) else (s, l))"
  by pat_completeness auto
termination
  by (relation "measure (\<lambda>(l, s). length (input l))") (auto simp: advance_def)

declare readIdent.simps [simp del]

lemma readIdent_length_le: "length (input (snd (readIdent l s))) \<le> length (input l)"
proof (induction l s rule: readIdent.induct)
  case (1 l s)
  show ?case
  proof (cases "input l")
    case Nil
    then show ?thesis by (simp add: readIdent.simps [of l s])
  next
    case (Cons r rs)
    show ?thesis
    proof (cases "isIdentRune r")
      case True
      with Cons 1 have "length (input (snd (readIdent (advance l) (s @ [r]))))
          \<le> length (input (advance l))" by simp
      then show ?thesis
        using Cons True advance_length_le [of l] by (simp add: readIdent.simps [of l s])
    next
      case False
      with Cons show ?thesis by (simp add: readIdent.simps [of l s])
    qed
  qed
qed

text \<open>The number loop of \<open>Next\<close>: \<open>n = n*10 + int(l.cur()-'0')\<close> in 64-bit arithmetic.\<close>

function readNumber :: "Lexer \<Rightarrow> int \<Rightarrow> int \<times> Lexer" where
  "readNumber l n = (case input l of
      [] \<Rightarrow> (n, l)
    | r # _ \<Rightarrow> if IsDigit r
        then readNumber (advance l) (wrap64 (wrap64 (n * 10) + (of_char r - 48)))
        else (n, l))"
  by pat_completeness auto
termination
  by (relation "measure (\<lambda>(l, n). length (input l))") (auto simp: advance_def)

declare readNumber.simps [simp del]

lemma readNumber_length_le: "length (input (snd (readNumber l n))) \<le> length (input l)"
proof (induction l n rule: readNumber.induct)
  case (1 l n)
  show ?case
  proof (cases "input l")
    case Nil
    then show ?thesis by (simp add: readNumber.simps [of l n])
  next
    case (Cons r rs)
    show ?thesis
    proof (cases "IsDigit r")
      case True
      with Cons 1 have "length (input (snd (readNumber (advance l)
          (wrap64 (wrap64 (n * 10) + (of_char r - 48)))))) \<le> length (input (advance l))" by simp
      then show ?thesis
        using Cons True advance_length_le [of l] by (simp add: readNumber.simps [of l n])
    next
      case False
      with Cons show ?thesis by (simp add: readNumber.simps [of l n])
    qed
  qed
qed

text \<open>The loop of \<open>readString\<close>, entered after the opening quote was consumed.\<close>

function readStringLoop :: "Lexer \<Rightarrow> string \<Rightarrow> string \<times> Lexer" where
  "readStringLoop l s = (case input l of
      [] \<Rightarrow> (s, l)
    | r # _ \<Rightarrow>
        if r = CHR 0x22 then (s, advance l)
        else if r = CHR 0x5C then
          (case input (advance l) of
             [] \<Rightarrow> (s, advance l)
           | r' # _ \<Rightarrow> readStringLoop (advance (advance l)) (s @ [r']))
        else readStringLoop (advance l) (s @ [r]))"
  by pat_completeness auto
termination
proof (relation "measure (\<lambda>(l, s). length (input l))", goal_cases)
  case 1
  show ?case by simp
next
  case (2 l s r rs r' rs')
  have "length (input (advance (advance l))) \<le> length (input (advance l))"
    by (rule advance_length_le)
  moreover have "length (input (advance l)) < length (input l)"
    using 2(1) by (simp add: input_advance)
  ultimately show ?case by simp
next
  case (3 l s r rs)
  then show ?case by (simp add: input_advance)
qed

declare readStringLoop.simps [simp del]

lemma readStringLoop_length_le: "length (input (snd (readStringLoop l s))) \<le> length (input l)"
proof (induction l s rule: readStringLoop.induct)
  case (1 l s)
  show ?case
  proof (cases "input l")
    case Nil
    then show ?thesis by (simp add: readStringLoop.simps [of l s])
  next
    case (Cons r rs)
    note al = advance_length_le [of l] advance_length_le [of "advance l"]
    consider (q) "r = CHR 0x22" | (b) "r \<noteq> CHR 0x22" "r = CHR 0x5C" | (o) "r \<noteq> CHR 0x22" "r \<noteq> CHR 0x5C"
      by blast
    then show ?thesis
    proof cases
      case q
      with Cons al show ?thesis by (simp add: readStringLoop.simps [of l s])
    next
      case b
      show ?thesis
      proof (cases "input (advance l)")
        case Nil
        with Cons b al show ?thesis by (simp add: readStringLoop.simps [of l s])
      next
        case (Cons r' rs')
        with \<open>input l = r # rs\<close> b 1(1) have "length (input (snd (readStringLoop (advance (advance l)) (s @ [r']))))
            \<le> length (input (advance (advance l)))" by blast
        with Cons \<open>input l = r # rs\<close> b al show ?thesis
          by (simp add: readStringLoop.simps [of l s])
      qed
    next
      case o
      with Cons 1(2) have "length (input (snd (readStringLoop (advance l) (s @ [r]))))
          \<le> length (input (advance l))" by blast
      with Cons o al show ?thesis by (simp add: readStringLoop.simps [of l s])
    qed
  qed
qed

definition readString :: "Lexer \<Rightarrow> Token \<times> Lexer" where
  "readString l = (case readStringLoop (advance l) [] of
      (s, l') \<Rightarrow> (\<lparr>Type = TokenString, Text = s, IntVal = 0, Line = line l, Col = col l\<rparr>, l'))"

definition readColonAssign :: "Lexer \<Rightarrow> Token \<times> Lexer" where
  "readColonAssign l0 = (let l1 = advance l0 in
     case input l1 of
       [] \<Rightarrow> (mk l1 TokenAssignEq '':'', l1)
     | r # _ \<Rightarrow>
         if r \<noteq> CHR '':'' then (mk l1 TokenAssignEq '':'', l1)
         else (let l2 = advance l1 in
           case input l2 of
             [] \<Rightarrow> (mk l2 TokenAssignEq ''::'', l2)
           | r' # _ \<Rightarrow>
               if r' \<noteq> CHR ''='' then (mk l2 TokenAssignEq ''::'', l2)
               else (let l3 = advance l2 in (mk l3 TokenColonColonEq ''::='', l3))))"

definition punct :: "Lexer \<Rightarrow> TokenType \<Rightarrow> string \<Rightarrow> Token \<times> Lexer" where
  "punct l t s = (let l' = advance l in (mk l' t s, l'))"

text \<open>
  \<open>Next\<close> without the one-token buffer of \<open>Peek\<close>: the parser below reads the token
  sequence that repeated calls of \<open>Next\<close> yield, and looks one token ahead in it.
\<close>

function Next :: "Lexer \<Rightarrow> Token \<times> Lexer" where
  "Next l0 = (let l = skipWhitespaceAndComments l0 in
     case input l of
       [] \<Rightarrow> (mk l TokenEOF '''', l)
     | r # _ \<Rightarrow>
         if isIdentStart r then
           (case readIdent (advance l) [r] of
              (s, l') \<Rightarrow> (\<lparr>Type = TokenIdent, Text = s, IntVal = 0, Line = line l, Col = col l\<rparr>, l'))
         else if IsDigit r then
           (case readNumber l 0 of
              (n, l') \<Rightarrow> (\<lparr>Type = TokenNumber, Text = '''', IntVal = n, Line = line l, Col = col l\<rparr>, l'))
         else if r = CHR 0x22 then readString l
         else if r = CHR ''{'' then punct l TokenLBrace ''{''
         else if r = CHR ''}'' then punct l TokenRBrace ''}''
         else if r = CHR ''('' then punct l TokenLParen ''(''
         else if r = CHR '')'' then punct l TokenRParen '')''
         else if r = CHR '','' then punct l TokenComma '',''
         else if r = CHR ''.'' then punct l TokenDot ''.''
         else if r = CHR '';'' then punct l TokenSemicolon '';''
         else if r = CHR '':'' then readColonAssign l
         else if r = CHR ''='' then punct l TokenAssignEq ''=''
         else Next (advance l))"
  by pat_completeness auto
termination
proof (relation "measure (\<lambda>l. length (input l))", goal_cases)
  case 1
  show ?case by simp
next
  case (2 l0 l r rs)
  have "length (input (advance l)) < length (input l)"
    using 2(2) by (simp add: input_advance)
  moreover have "length (input l) \<le> length (input l0)"
    using 2 skipWhitespaceAndComments_length_le [of l0] by simp
  ultimately show ?case by simp
qed

declare Next.simps [simp del]

lemma readString_le: "length (input (snd (readString l))) \<le> length (input (advance l))"
  using readStringLoop_length_le [of "advance l" "[]"]
  by (auto simp: readString_def split: prod.split)

lemma readColonAssign_le: "length (input (snd (readColonAssign l))) \<le> length (input (advance l))"
  by (auto simp: readColonAssign_def Let_def input_advance split: list.split)

lemma punct_snd: "snd (punct l t s) = advance l"
  by (simp add: punct_def Let_def)

lemma Next_consumes:
  "Type (fst (Next l0)) \<noteq> TokenEOF \<Longrightarrow> length (input (snd (Next l0))) < length (input l0)"
proof (induction l0 rule: Next.induct)
  case (1 l0)
  define l where "l = skipWhitespaceAndComments l0"
  have le: "length (input l) \<le> length (input l0)"
    unfolding l_def by (rule skipWhitespaceAndComments_length_le)
  show ?case
  proof (cases "input l")
    case Nil
    then have "Next l0 = (mk l TokenEOF [], l)"
      by (subst Next.simps) (simp add: l_def Let_def)
    with 1(2) show ?thesis by (simp add: mk_def)
  next
    case (Cons r rs)
    have adv: "length (input (advance l)) < length (input l)"
      using Cons by (simp add: input_advance)
    have unf: "Next l0 =
        (if isIdentStart r then
           (case readIdent (advance l) [r] of
              (s, l') \<Rightarrow> (\<lparr>Type = TokenIdent, Text = s, IntVal = 0, Line = line l, Col = col l\<rparr>, l'))
         else if IsDigit r then
           (case readNumber l 0 of
              (n, l') \<Rightarrow> (\<lparr>Type = TokenNumber, Text = [], IntVal = n, Line = line l, Col = col l\<rparr>, l'))
         else if r = CHR 0x22 then readString l
         else if r = CHR ''{'' then punct l TokenLBrace ''{''
         else if r = CHR ''}'' then punct l TokenRBrace ''}''
         else if r = CHR ''('' then punct l TokenLParen ''(''
         else if r = CHR '')'' then punct l TokenRParen '')''
         else if r = CHR '','' then punct l TokenComma '',''
         else if r = CHR ''.'' then punct l TokenDot ''.''
         else if r = CHR '';'' then punct l TokenSemicolon '';''
         else if r = CHR '':'' then readColonAssign l
         else if r = CHR ''='' then punct l TokenAssignEq ''=''
         else Next (advance l))"
      using Cons by (subst Next.simps) (simp only: Let_def l_def [symmetric] list.case)
    consider (id) "isIdentStart r" | (num) "\<not> isIdentStart r" "IsDigit r"
      | (str) "\<not> isIdentStart r" "\<not> IsDigit r" "r = CHR 0x22"
      | (col) "\<not> isIdentStart r" "\<not> IsDigit r" "r = CHR '':''"
      | (pun) "\<not> isIdentStart r" "\<not> IsDigit r" "r \<in> set ''{}(),.;=''"
      | (unk) "\<not> isIdentStart r" "\<not> IsDigit r" "r \<noteq> CHR 0x22" "r \<noteq> CHR '':''" "r \<notin> set ''{}(),.;=''"
      by blast
    then have "length (input (snd (Next l0))) \<le> length (input (advance l))"
    proof cases
      case id
      then have "snd (Next l0) = snd (readIdent (advance l) [r])"
        by (simp add: unf split: prod.split)
      then show ?thesis using readIdent_length_le [of "advance l" "[r]"] by simp
    next
      case num
      then have "snd (Next l0) = snd (readNumber l 0)"
        by (simp add: unf split: prod.split)
      moreover have "readNumber l 0 = readNumber (advance l) (wrap64 (wrap64 (0 * 10) + (of_char r - 48)))"
        using Cons num by (subst readNumber.simps) simp
      ultimately show ?thesis
        using readNumber_length_le [of "advance l"] by simp
    next
      case str
      then have "snd (Next l0) = snd (readString l)" by (simp add: unf)
      then show ?thesis using readString_le [of l] by simp
    next
      case col
      then have "snd (Next l0) = snd (readColonAssign l)" by (simp add: unf)
      then show ?thesis using readColonAssign_le [of l] by simp
    next
      case pun
      then have "snd (Next l0) = advance l" by (auto simp add: unf punct_snd)
      then show ?thesis by simp
    next
      case unk
      then have eq: "Next l0 = Next (advance l)" by (simp add: unf)
      have "length (input (snd (Next (advance l)))) < length (input (advance l))"
        using 1(1) [OF l_def Cons] unk 1(2) eq by simp
      then show ?thesis using eq by simp
    qed
    then show ?thesis using adv le by simp
  qed
qed

lemma Next_consumes_pair:
  "(t, l') = Next l \<Longrightarrow> Type t \<noteq> TokenEOF \<Longrightarrow> length (input l') < length (input l)"
  using Next_consumes [of l] by (cases "Next l") auto

text \<open>
  The token sequence of an input: every token \<open>Next\<close> yields before the first
  end-of-file token, and the position that end-of-file token carries (the lexer returns it
  again on every later call).
\<close>

record Tokens =
  toks :: "Token list"
  eofLine :: nat
  eofCol :: nat

function lexAll :: "Lexer \<Rightarrow> Tokens" where
  "lexAll l = (case Next l of (t, l') \<Rightarrow>
      if Type t = TokenEOF then \<lparr>toks = [], eofLine = Line t, eofCol = Col t\<rparr>
      else toks_update (Cons t) (lexAll l'))"
  by pat_completeness auto
termination
  by (relation "measure (\<lambda>l. length (input l))") (auto dest: Next_consumes_pair)

declare lexAll.simps [simp del]

definition Lex :: "string \<Rightarrow> Tokens" where
  "Lex inp = lexAll (New inp)"

section \<open>Parser state and token helpers (package parser)\<close>

text \<open>
  The parser holds the current token \<open>p.tok\<close> and the lexer behind it. Here both are one
  \<open>Tokens\<close> value: \<open>tok\<close> is the head of the remaining token sequence (the end-of-file
  token once it is exhausted), \<open>next\<close> drops it, and \<open>l.Peek()\<close> is the token after it.
\<close>

definition tok :: "Tokens \<Rightarrow> Token" where
  "tok s = (case toks s of
      [] \<Rightarrow> \<lparr>Type = TokenEOF, Text = [], IntVal = 0, Line = eofLine s, Col = eofCol s\<rparr>
    | t # _ \<Rightarrow> t)"

definition nxt :: "Tokens \<Rightarrow> Tokens" where
  "nxt s = toks_update tl s"

definition Peek :: "Tokens \<Rightarrow> Token" where
  "Peek s = tok (nxt s)"

definition foldByte :: "char \<Rightarrow> char" where
  "foldByte c = (if 65 \<le> (of_char c :: nat) \<and> (of_char c :: nat) \<le> 90
     then char_of ((of_char c :: nat) + 32) else c)"

fun equalFoldLoop :: "string \<Rightarrow> string \<Rightarrow> bool" where
  "equalFoldLoop (ca # a) (cb # b) = (if foldByte ca \<noteq> foldByte cb then False else equalFoldLoop a b)"
| "equalFoldLoop _ _ = True"

definition equalFold :: "string \<Rightarrow> string \<Rightarrow> bool" where
  "equalFold a b = (if length a \<noteq> length b then False else equalFoldLoop a b)"

definition isIdent :: "Tokens \<Rightarrow> string \<Rightarrow> bool" where
  "isIdent s kw = (Type (tok s) = TokenIdent \<and> equalFold (Text (tok s)) kw)"

text \<open>
  \<open>accept\<close> and \<open>acceptIdent\<close> return whether they matched and, when they did, move on:
  \<open>Some\<close> of the advanced state stands for \<open>true\<close>, \<open>None\<close> for \<open>false\<close> with the state
  unchanged.
\<close>

definition accept :: "Tokens \<Rightarrow> TokenType \<Rightarrow> Tokens option" where
  "accept s t = (if Type (tok s) = t then Some (nxt s) else None)"

definition acceptIdent :: "Tokens \<Rightarrow> string \<Rightarrow> Tokens option" where
  "acceptIdent s kw = (if isIdent s kw then Some (nxt s) else None)"

definition expect :: "Tokens \<Rightarrow> TokenType \<Rightarrow> (Token \<times> Tokens) option" where
  "expect s t = (if Type (tok s) = t then Some (tok s, nxt s) else None)"

text \<open>
  The error value: \<open>errorf\<close> formats \<open>parse error at <line>:<col>: <description>\<close> with the
  position of the current token. \<open>Sprintf_d\<close> is \<open>fmt.Sprintf("%d", n)\<close>.
\<close>

datatype error = ParseError nat nat string

definition errorf :: "Tokens \<Rightarrow> string \<Rightarrow> error" where
  "errorf s msg = ParseError (Line (tok s)) (Col (tok s)) msg"

fun digitChar :: "nat \<Rightarrow> char" where
  "digitChar n = char_of (48 + n)"

function decimal :: "nat \<Rightarrow> string" where
  "decimal n = (if n < 10 then [digitChar n] else decimal (n div 10) @ [digitChar (n mod 10)])"
  by pat_completeness auto
termination
  by (relation "measure id") auto

declare decimal.simps [simp del]

definition Sprintf_d :: "int \<Rightarrow> string" where
  "Sprintf_d n = (if n < 0 then CHR ''-'' # decimal (nat (- n)) else decimal (nat n))"

definition errorString :: "error \<Rightarrow> string" where
  "errorString e = (case e of ParseError l c msg \<Rightarrow>
     ''parse error at '' @ decimal l @ '':'' @ decimal c @ '': '' @ msg)"

lemma nxt_length_le: "length (toks (nxt s)) \<le> length (toks s)"
  by (simp add: nxt_def)

lemma nxt_length_less: "Type (tok s) \<noteq> TokenEOF \<Longrightarrow> length (toks (nxt s)) < length (toks s)"
  by (cases "toks s") (simp_all add: nxt_def tok_def)

lemma accept_length_le: "accept s t = Some s' \<Longrightarrow> length (toks s') \<le> length (toks s)"
  by (auto simp: accept_def nxt_def split: if_splits)

lemma accept_length_less:
  "accept s t = Some s' \<Longrightarrow> t \<noteq> TokenEOF \<Longrightarrow> length (toks s') < length (toks s)"
  using nxt_length_less [of s] by (auto simp: accept_def split: if_splits)

lemma acceptIdent_length_less:
  "acceptIdent s kw = Some s' \<Longrightarrow> length (toks s') < length (toks s)"
  using nxt_length_less [of s] by (auto simp: acceptIdent_def isIdent_def split: if_splits)

section \<open>References to a parent OID\<close>

definition parseParentRef :: "Tokens \<Rightarrow> string \<times> int \<times> Tokens" where
  "parseParentRef s0 =
    (case (if Type (tok s0) = TokenIdent then
             (if Type (tok (nxt s0)) = TokenDot then
                (if Type (tok (nxt (nxt s0))) = TokenIdent
                   then (Text (tok (nxt (nxt s0))), nxt (nxt (nxt s0)))
                   else (Text (tok s0), nxt (nxt s0)))
              else (Text (tok s0), nxt s0))
           else ([], s0)) of
       (parentName, s1) \<Rightarrow>
         if Type (tok s1) = TokenLParen then
           (case (if Type (tok (nxt s1)) = TokenNumber
                    then (IntVal (tok (nxt s1)), nxt (nxt s1)) else (0, nxt s1)) of
              (index, s2) \<Rightarrow>
                (parentName, index, (if Type (tok s2) = TokenRParen then nxt s2 else s2)))
         else if Type (tok s1) = TokenNumber then (parentName, IntVal (tok s1), nxt s1)
         else (parentName, 0, s1))"

lemma parseParentRef_length_le:
  "length (toks (snd (snd (parseParentRef s)))) \<le> length (toks s)"
  by (simp add: parseParentRef_def nxt_def split: prod.split)

text \<open>The loop of \<open>parseOidAssignmentInsideBraces\<close> over a run of numbers.\<close>

function parseAbsolute :: "Tokens \<Rightarrow> int list \<Rightarrow> int list \<times> Tokens" where
  "parseAbsolute s ab = (if Type (tok s) = TokenNumber
     then parseAbsolute (nxt s) (ab @ [IntVal (tok s)]) else (ab, s))"
  by pat_completeness auto
termination
  by (relation "measure (\<lambda>(s, ab). length (toks s))") (auto simp: nxt_length_less)

declare parseAbsolute.simps [simp del]

lemma parseAbsolute_length_le: "length (toks (snd (parseAbsolute s ab))) \<le> length (toks s)"
proof (induction s ab rule: parseAbsolute.induct)
  case (1 s ab)
  show ?case
  proof (cases "Type (tok s) = TokenNumber")
    case True
    then have "length (toks (snd (parseAbsolute (nxt s) (ab @ [IntVal (tok s)]))))
        \<le> length (toks (nxt s))" using 1 by simp
    then show ?thesis
      using True nxt_length_le [of s] by (subst parseAbsolute.simps) simp
  next
    case False
    then show ?thesis by (subst parseAbsolute.simps) simp
  qed
qed

text \<open>The result of \<open>parseOidAssignmentInsideBraces\<close>: parent name, index, absolute OID,
  and whether the absolute form was read.\<close>

record OidRef =
  refParent :: string
  refIndex :: int
  refAbs :: "int list"
  refHasAbs :: bool

definition parseOidAssignmentInsideBraces :: "Tokens \<Rightarrow> OidRef \<times> Tokens" where
  "parseOidAssignmentInsideBraces s =
    (if Type (tok s) = TokenNumber then
       (case parseAbsolute s [] of
          (ab, s') \<Rightarrow> (\<lparr>refParent = [], refIndex = 0, refAbs = ab, refHasAbs = True\<rparr>, s'))
     else
       (case parseParentRef s of
          (parent, idx, s') \<Rightarrow>
            (\<lparr>refParent = parent, refIndex = idx, refAbs = [], refHasAbs = False\<rparr>, s')))"

lemma parseOidAssignmentInsideBraces_length_le:
  "length (toks (snd (parseOidAssignmentInsideBraces s))) \<le> length (toks s)"
  using parseAbsolute_length_le [of s "[]"] parseParentRef_length_le [of s]
  by (auto simp: parseOidAssignmentInsideBraces_def split: prod.split)

text \<open>
  The tail every OID-bearing construct shares after its \<open>::=\<close> was accepted:
  \<open>{\<close>, the reference, \<open>}\<close>, with the construct's two error messages.
\<close>

definition parseBracedOid :: "Tokens \<Rightarrow> string \<Rightarrow> string \<Rightarrow> error + (OidRef \<times> Tokens)" where
  "parseBracedOid s msgL msgR =
    (case accept s TokenLBrace of
       None \<Rightarrow> Inl (errorf s msgL)
     | Some s1 \<Rightarrow>
         (case parseOidAssignmentInsideBraces s1 of
            (r, s2) \<Rightarrow>
              (case accept s2 TokenRBrace of
                 None \<Rightarrow> Inl (errorf s2 msgR)
               | Some s3 \<Rightarrow> Inr (r, s3))))"

lemma parseBracedOid_length_le:
  "parseBracedOid s msgL msgR = Inr (r, s') \<Longrightarrow> length (toks s') \<le> length (toks s)"
proof -
  assume a: "parseBracedOid s msgL msgR = Inr (r, s')"
  then obtain s1 where s1: "accept s TokenLBrace = Some s1"
    by (auto simp: parseBracedOid_def split: option.splits)
  obtain r2 s2 where p: "parseOidAssignmentInsideBraces s1 = (r2, s2)"
    by force
  with a s1 have s3: "accept s2 TokenRBrace = Some s'"
    by (auto simp: parseBracedOid_def split: option.splits)
  have "length (toks s2) \<le> length (toks s1)"
    using parseOidAssignmentInsideBraces_length_le [of s1] p by simp
  with accept_length_le [OF s1] accept_length_le [OF s3] show ?thesis
    by simp
qed

text \<open>The same tail for the group-like constructs, which call \<open>parseParentRef\<close> directly.\<close>

definition parseBracedParentRef ::
  "Tokens \<Rightarrow> string \<Rightarrow> string \<Rightarrow> error + (string \<times> int \<times> Tokens)" where
  "parseBracedParentRef s msgL msgR =
    (case accept s TokenLBrace of
       None \<Rightarrow> Inl (errorf s msgL)
     | Some s1 \<Rightarrow>
         (case parseParentRef s1 of
            (parent, idx, s2) \<Rightarrow>
              (case accept s2 TokenRBrace of
                 None \<Rightarrow> Inl (errorf s2 msgR)
               | Some s3 \<Rightarrow> Inr (parent, idx, s3))))"

lemma parseBracedParentRef_length_le:
  "parseBracedParentRef s msgL msgR = Inr (parent, idx, s') \<Longrightarrow> length (toks s') \<le> length (toks s)"
proof -
  assume a: "parseBracedParentRef s msgL msgR = Inr (parent, idx, s')"
  then obtain s1 where s1: "accept s TokenLBrace = Some s1"
    by (auto simp: parseBracedParentRef_def split: option.splits)
  obtain pn i2 s2 where p: "parseParentRef s1 = (pn, i2, s2)"
    by (metis prod_cases3)
  with a s1 have s3: "accept s2 TokenRBrace = Some s'"
    by (auto simp: parseBracedParentRef_def split: option.splits)
  have "length (toks s2) \<le> length (toks s1)"
    using parseParentRef_length_le [of s1] p by simp
  with accept_length_le [OF s1] accept_length_le [OF s3] show ?thesis
    by simp
qed

section \<open>Free text up to a keyword\<close>

definition isSpaceByte :: "char \<Rightarrow> bool" where
  "isSpaceByte c = (c = CHR '' '' \<or> c = CHR 0x0A \<or> c = CHR 0x09 \<or> c = CHR 0x0D)"

definition trimSpace :: "string \<Rightarrow> string" where
  "trimSpace s = rev (dropWhile isSpaceByte (rev (dropWhile isSpaceByte s)))"

definition tokenText :: "Token \<Rightarrow> string" where
  "tokenText t =
    (if Type t = TokenIdent then Text t
     else if Type t = TokenNumber then Sprintf_d (IntVal t)
     else if Type t = TokenString then [CHR 0x22] @ Text t @ [CHR 0x22]
     else Text t)"

function parseUntilKeywordsLoop :: "string list \<Rightarrow> Tokens \<Rightarrow> string \<Rightarrow> string \<times> Tokens" where
  "parseUntilKeywordsLoop stop s acc =
    (if Type (tok s) = TokenEOF then (trimSpace acc, s)
     else if Type (tok s) = TokenIdent \<and> list_ex (isIdent s) stop then (trimSpace acc, s)
     else if Type (tok s) = TokenColonColonEq \<and> list_ex ((=) ''::='') stop then (trimSpace acc, s)
     else parseUntilKeywordsLoop stop (nxt s)
            ((if acc \<noteq> [] then acc @ '' '' else acc) @ tokenText (tok s)))"
  by pat_completeness auto
termination
  by (relation "measure (\<lambda>(stop, s, acc). length (toks s))") (auto simp: nxt_length_less)

declare parseUntilKeywordsLoop.simps [simp del]

definition parseUntilKeywords :: "Tokens \<Rightarrow> string list \<Rightarrow> string \<times> Tokens" where
  "parseUntilKeywords s stop = parseUntilKeywordsLoop stop s []"

definition parseTypeString :: "Tokens \<Rightarrow> string \<times> Tokens" where
  "parseTypeString s = parseUntilKeywords s
     [''ACCESS'', ''MAX-ACCESS'', ''STATUS'', ''DESCRIPTION'', ''INDEX'', ''::='']"

lemma parseUntilKeywordsLoop_length_le:
  "length (toks (snd (parseUntilKeywordsLoop stop s acc))) \<le> length (toks s)"
proof (induction stop s acc rule: parseUntilKeywordsLoop.induct)
  case (1 stop s acc)
  let ?stopHere = "Type (tok s) = TokenEOF
      \<or> (Type (tok s) = TokenIdent \<and> list_ex (isIdent s) stop)
      \<or> (Type (tok s) = TokenColonColonEq \<and> list_ex ((=) ''::='') stop)"
  show ?case
  proof (cases ?stopHere)
    case True
    then have "snd (parseUntilKeywordsLoop stop s acc) = s"
      by (subst parseUntilKeywordsLoop.simps) auto
    then show ?thesis by simp
  next
    case False
    then have eq: "parseUntilKeywordsLoop stop s acc = parseUntilKeywordsLoop stop (nxt s)
        ((if acc \<noteq> [] then acc @ '' '' else acc) @ tokenText (tok s))"
      by (subst parseUntilKeywordsLoop.simps) auto
    have "length (toks (snd (parseUntilKeywordsLoop stop (nxt s)
        ((if acc \<noteq> [] then acc @ '' '' else acc) @ tokenText (tok s))))) \<le> length (toks (nxt s))"
      using 1 False by blast
    then show ?thesis using eq nxt_length_le [of s] by simp
  qed
qed

lemma parseUntilKeywords_length_le:
  "length (toks (snd (parseUntilKeywords s stop))) \<le> length (toks s)"
  by (simp add: parseUntilKeywords_def parseUntilKeywordsLoop_length_le)

lemma parseTypeString_length_le: "length (toks (snd (parseTypeString s))) \<le> length (toks s)"
  by (simp add: parseTypeString_def parseUntilKeywords_length_le)

section \<open>Skipping\<close>

text \<open>The loop of \<open>parseImports\<close>, entered after \<open>IMPORTS\<close> was consumed.\<close>

function parseImportsLoop :: "Tokens \<Rightarrow> Tokens" where
  "parseImportsLoop s =
    (if Type (tok s) = TokenEOF then s
     else if Type (tok s) = TokenSemicolon then nxt s
     else parseImportsLoop (nxt s))"
  by pat_completeness auto
termination
  by (relation "measure (\<lambda>s. length (toks s))") (auto simp: nxt_length_less)

declare parseImportsLoop.simps [simp del]

definition parseImports :: "Tokens \<Rightarrow> Tokens" where
  "parseImports s = parseImportsLoop (nxt s)"

text \<open>The macro loop of \<open>skipDefinition\<close>: up to and including the first \<open>END\<close>.\<close>

function skipMacroBody :: "Tokens \<Rightarrow> Tokens" where
  "skipMacroBody s =
    (if Type (tok s) = TokenEOF then s
     else if isIdent s ''END'' then nxt s
     else skipMacroBody (nxt s))"
  by pat_completeness auto
termination
  by (relation "measure (\<lambda>s. length (toks s))") (auto simp: nxt_length_less)

declare skipMacroBody.simps [simp del]

text \<open>The main loop of \<open>skipDefinition\<close>, with its \<open>depth\<close> and \<open>depthStarted\<close>.\<close>

definition decDepth :: "nat \<Rightarrow> nat" where
  "decDepth depth = (if depth > 0 then depth - 1 else depth)"

function skipBalanced :: "nat \<Rightarrow> bool \<Rightarrow> Tokens \<Rightarrow> Tokens" where
  "skipBalanced depth depthStarted s =
    (if Type (tok s) = TokenEOF then s
     else if isIdent s ''END'' then s
     else if Type (tok s) = TokenLBrace then skipBalanced (depth + 1) True (nxt s)
     else if Type (tok s) = TokenRBrace then
       (if depthStarted \<and> decDepth depth = 0 then nxt s
        else skipBalanced (decDepth depth) depthStarted (nxt s))
     else skipBalanced depth depthStarted (nxt s))"
  by pat_completeness auto
termination
  by (relation "measure (\<lambda>(depth, depthStarted, s). length (toks s))")
    (auto simp: nxt_length_less)

declare skipBalanced.simps [simp del]

definition skipDefinition :: "Tokens \<Rightarrow> Tokens" where
  "skipDefinition s =
    (if isIdent s ''MACRO'' then
       (case accept (nxt s) TokenColonColonEq of
          None \<Rightarrow> skipBalanced 0 False (nxt s)
        | Some s1 \<Rightarrow>
            (case acceptIdent s1 ''BEGIN'' of
               None \<Rightarrow> skipBalanced 0 False s1
             | Some s2 \<Rightarrow> skipMacroBody s2))
     else skipBalanced 0 False s)"

lemma parseImportsLoop_length_le: "length (toks (parseImportsLoop s)) \<le> length (toks s)"
proof (induction s rule: parseImportsLoop.induct)
  case (1 s)
  show ?case
    using 1 nxt_length_le [of s]
    by (subst parseImportsLoop.simps) (auto intro: order_trans)
qed

lemma parseImports_length_le: "length (toks (parseImports s)) \<le> length (toks s)"
  using parseImportsLoop_length_le [of "nxt s"] nxt_length_le [of s]
  by (simp add: parseImports_def)

lemma skipMacroBody_length_le: "length (toks (skipMacroBody s)) \<le> length (toks s)"
proof (induction s rule: skipMacroBody.induct)
  case (1 s)
  show ?case
    using 1 nxt_length_le [of s]
    by (subst skipMacroBody.simps) (auto intro: order_trans)
qed

lemma skipBalanced_length_le: "length (toks (skipBalanced d b s)) \<le> length (toks s)"
proof (induction d b s rule: skipBalanced.induct)
  case (1 depth depthStarted s)
  show ?case
    using 1 nxt_length_le [of s]
    by (subst skipBalanced.simps) (auto intro: order_trans)
qed

lemma skipDefinition_length_le: "length (toks (skipDefinition s)) \<le> length (toks s)"
proof -
  have n: "length (toks (nxt s)) \<le> length (toks s)" by (rule nxt_length_le)
  show ?thesis
    unfolding skipDefinition_def
    using n skipBalanced_length_le [of 0 False s] skipBalanced_length_le [of 0 False "nxt s"]
    by (auto split: option.split dest!: accept_length_le acceptIdent_length_less
        intro: order_trans [OF skipBalanced_length_le] order_trans [OF skipMacroBody_length_le])
qed

section \<open>The module under construction\<close>

text \<open>
  The IR records of the parser. A Go map is a partial function from its keys; a nil and an
  empty slice are both the empty list; the \<open>*ModuleIdentityIR\<close> pointer is an option.
\<close>

record ObjectTypeIR =
  otName :: string
  otOID :: "int list"
  otSyntax :: string
  otAccess :: string
  otStatus :: string
  otDescription :: string
  otIndex :: "string list"

record ModuleIdentityIR =
  miName :: string
  miOID :: "int list"
  miLastUpdated :: string
  miOrganization :: string
  miContactInfo :: string
  miDescription :: string

record ObjectIdentityIR =
  oiName :: string
  oiOID :: "int list"
  oiStatus :: string
  oiDescription :: string

record TextualConventionIR =
  tcName :: string
  tcDisplayHint :: string
  tcStatus :: string
  tcDescription :: string
  tcSyntax :: string

record NotificationTypeIR =
  ntName :: string
  ntOID :: "int list"
  ntObjects :: "string list"
  ntStatus :: string
  ntDescription :: string

record ModuleIR =
  Name :: string
  NodesByName :: "string \<rightharpoonup> int list"
  ObjectsByName :: "string \<rightharpoonup> ObjectTypeIR"
  ModuleIdentity :: "ModuleIdentityIR option"
  ObjectIdentities :: "string \<rightharpoonup> ObjectIdentityIR"
  TextualConventions :: "string \<rightharpoonup> TextualConventionIR"
  NotificationTypes :: "string \<rightharpoonup> NotificationTypeIR"

text \<open>
  A pending reference. Its \<open>apply\<close> closure is one of five shapes, each capturing the
  name or the record it will patch; the index it appends is the \<open>index\<close> field of the same
  pending reference. Every captured record is reachable only through the closure and the
  map entry the closure rewrites, so the record is held by value.
\<close>

datatype applyFn =
    ApplyNode string
  | ApplyObject ObjectTypeIR
  | ApplyModuleIdentity string ModuleIdentityIR
  | ApplyObjectIdentity string ObjectIdentityIR
  | ApplyNotification NotificationTypeIR

record pendingRef =
  prParent :: string
  prIndex :: int
  prApply :: applyFn

record rdParser =
  lx :: Tokens
  mdl :: ModuleIR
  pend :: "pendingRef list"

definition emptyModule :: ModuleIR where
  "emptyModule = \<lparr>Name = [], NodesByName = Map.empty, ObjectsByName = Map.empty,
     ModuleIdentity = None, ObjectIdentities = Map.empty, TextualConventions = Map.empty,
     NotificationTypes = Map.empty\<rparr>"

definition setNode :: "string \<Rightarrow> int list \<Rightarrow> ModuleIR \<Rightarrow> ModuleIR" where
  "setNode name oid m = NodesByName_update (\<lambda>nodes. nodes(name \<mapsto> oid)) m"

definition initBaseOids :: "ModuleIR \<Rightarrow> ModuleIR" where
  "initBaseOids m =
     setNode ''snmpModules'' [1, 3, 6, 1, 6, 3]
    (setNode ''snmpV2'' [1, 3, 6, 1, 6]
    (setNode ''enterprises'' [1, 3, 6, 1, 4, 1]
    (setNode ''private'' [1, 3, 6, 1, 4]
    (setNode ''mib-2'' [1, 3, 6, 1, 2, 1]
    (setNode ''mgmt'' [1, 3, 6, 1, 2]
    (setNode ''internet'' [1, 3, 6, 1]
    (setNode ''dod'' [1, 3, 6]
    (setNode ''org'' [1, 3]
    (setNode ''iso'' [1] m)))))))))"

definition resolveOidBase :: "ModuleIR \<Rightarrow> string \<Rightarrow> int list option" where
  "resolveOidBase m name = (case NodesByName m name of
      None \<Rightarrow> None
    | Some base \<Rightarrow> if length base > 0 then Some base else None)"

text \<open>\<open>if _, exists := p.mod.NodesByName[name]; !exists { p.mod.NodesByName[name] = []int{} }\<close>\<close>

definition ensurePlaceholder :: "string \<Rightarrow> ModuleIR \<Rightarrow> ModuleIR" where
  "ensurePlaceholder name m = (case NodesByName m name of
      None \<Rightarrow> setNode name [] m
    | Some _ \<Rightarrow> m)"

definition addPending :: "string \<Rightarrow> int \<Rightarrow> applyFn \<Rightarrow> rdParser \<Rightarrow> rdParser" where
  "addPending par i f p =
     pend_update (\<lambda>ps. ps @ [\<lparr>prParent = par, prIndex = i, prApply = f\<rparr>]) p"

text \<open>Running the \<open>apply\<close> closure of a pending reference on the parent's OID.\<close>

definition applyPending :: "pendingRef \<Rightarrow> int list \<Rightarrow> ModuleIR \<Rightarrow> ModuleIR" where
  "applyPending pr base m = (case prApply pr of
      ApplyNode name \<Rightarrow> setNode name (base @ [prIndex pr]) m
    | ApplyObject obj \<Rightarrow>
        setNode (otName obj) (base @ [prIndex pr])
          (ObjectsByName_update
            (\<lambda>objs. objs(otName obj \<mapsto> obj\<lparr>otOID := base @ [prIndex pr]\<rparr>)) m)
    | ApplyModuleIdentity ident mi \<Rightarrow>
        setNode ident (base @ [prIndex pr])
          (ModuleIdentity_update (\<lambda>_. Some (mi\<lparr>miOID := base @ [prIndex pr]\<rparr>)) m)
    | ApplyObjectIdentity ident oi \<Rightarrow>
        setNode ident (base @ [prIndex pr])
          (ObjectIdentities_update
            (\<lambda>ois. ois(oiName oi \<mapsto> oi\<lparr>oiOID := base @ [prIndex pr]\<rparr>)) m)
    | ApplyNotification nt \<Rightarrow>
        NotificationTypes_update
          (\<lambda>nts. nts(ntName nt \<mapsto> nt\<lparr>ntOID := base @ [prIndex pr]\<rparr>)) m)"

section \<open>Storing a declaration once its OID reference was read\<close>

definition storeObjectIdentifier :: "string \<Rightarrow> OidRef \<Rightarrow> rdParser \<Rightarrow> rdParser" where
  "storeObjectIdentifier ident r p =
    (if refHasAbs r then mdl_update (setNode ident (refAbs r)) p
     else (case resolveOidBase (mdl p) (refParent r) of
        Some base \<Rightarrow> mdl_update (setNode ident (base @ [refIndex r])) p
      | None \<Rightarrow> addPending (refParent r) (refIndex r) (ApplyNode ident)
                  (mdl_update (ensurePlaceholder ident) p)))"

definition putObject :: "ObjectTypeIR \<Rightarrow> ModuleIR \<Rightarrow> ModuleIR" where
  "putObject obj m = ObjectsByName_update (\<lambda>objs. objs(otName obj \<mapsto> obj)) m"

definition storeObjectType :: "ObjectTypeIR \<Rightarrow> OidRef \<Rightarrow> rdParser \<Rightarrow> rdParser" where
  "storeObjectType obj r p =
    (if refHasAbs r then
       mdl_update (\<lambda>m. setNode (otName obj) (refAbs r) (putObject (obj\<lparr>otOID := refAbs r\<rparr>) m)) p
     else (case resolveOidBase (mdl p) (refParent r) of
        Some base \<Rightarrow>
          mdl_update (\<lambda>m. setNode (otName obj) (base @ [refIndex r])
                            (putObject (obj\<lparr>otOID := base @ [refIndex r]\<rparr>) m)) p
      | None \<Rightarrow> addPending (refParent r) (refIndex r) (ApplyObject obj)
                  (mdl_update (\<lambda>m. ensurePlaceholder (otName obj) (putObject obj m)) p)))"

text \<open>The group-like constructs test only that the parent is a key of \<open>nodes\<close>.\<close>

definition storeGroup :: "string \<Rightarrow> string \<Rightarrow> int \<Rightarrow> rdParser \<Rightarrow> rdParser" where
  "storeGroup ident par i p =
    (case NodesByName (mdl p) par of
       Some base \<Rightarrow> mdl_update (setNode ident (base @ [i])) p
     | None \<Rightarrow> addPending par i (ApplyNode ident) p)"

definition putModuleIdentity :: "ModuleIdentityIR \<Rightarrow> ModuleIR \<Rightarrow> ModuleIR" where
  "putModuleIdentity mi m = ModuleIdentity_update (\<lambda>_. Some mi) m"

definition storeModuleIdentity :: "string \<Rightarrow> ModuleIdentityIR \<Rightarrow> OidRef \<Rightarrow> rdParser \<Rightarrow> rdParser" where
  "storeModuleIdentity ident mi r p =
    (if refHasAbs r then
       mdl_update (\<lambda>m. setNode ident (refAbs r) (putModuleIdentity (mi\<lparr>miOID := refAbs r\<rparr>) m)) p
     else (case resolveOidBase (mdl p) (refParent r) of
        Some base \<Rightarrow>
          mdl_update (\<lambda>m. setNode ident (base @ [refIndex r])
                            (putModuleIdentity (mi\<lparr>miOID := base @ [refIndex r]\<rparr>) m)) p
      | None \<Rightarrow> addPending (refParent r) (refIndex r) (ApplyModuleIdentity ident mi)
                  (mdl_update (putModuleIdentity mi) p)))"

definition putObjectIdentity :: "ObjectIdentityIR \<Rightarrow> ModuleIR \<Rightarrow> ModuleIR" where
  "putObjectIdentity oi m = ObjectIdentities_update (\<lambda>ois. ois(oiName oi \<mapsto> oi)) m"

definition storeObjectIdentity :: "string \<Rightarrow> ObjectIdentityIR \<Rightarrow> OidRef \<Rightarrow> rdParser \<Rightarrow> rdParser" where
  "storeObjectIdentity ident oi r p =
    (if refHasAbs r then
       mdl_update (\<lambda>m. setNode ident (refAbs r) (putObjectIdentity (oi\<lparr>oiOID := refAbs r\<rparr>) m)) p
     else (case resolveOidBase (mdl p) (refParent r) of
        Some base \<Rightarrow>
          mdl_update (\<lambda>m. setNode ident (base @ [refIndex r])
                            (putObjectIdentity (oi\<lparr>oiOID := base @ [refIndex r]\<rparr>) m)) p
      | None \<Rightarrow> addPending (refParent r) (refIndex r) (ApplyObjectIdentity ident oi)
                  (mdl_update (putObjectIdentity oi) p)))"

definition putNotification :: "NotificationTypeIR \<Rightarrow> ModuleIR \<Rightarrow> ModuleIR" where
  "putNotification nt m = NotificationTypes_update (\<lambda>nts. nts(ntName nt \<mapsto> nt)) m"

definition storeNotificationType :: "NotificationTypeIR \<Rightarrow> OidRef \<Rightarrow> rdParser \<Rightarrow> rdParser" where
  "storeNotificationType nt r p =
    (if refHasAbs r then mdl_update (putNotification (nt\<lparr>ntOID := refAbs r\<rparr>)) p
     else (case resolveOidBase (mdl p) (refParent r) of
        Some base \<Rightarrow> mdl_update (putNotification (nt\<lparr>ntOID := base @ [refIndex r]\<rparr>)) p
      | None \<Rightarrow> addPending (refParent r) (refIndex r) (ApplyNotification nt)
                  (mdl_update (putNotification nt) p)))"

definition putTextualConvention :: "TextualConventionIR \<Rightarrow> ModuleIR \<Rightarrow> ModuleIR" where
  "putTextualConvention tc m = TextualConventions_update (\<lambda>tcs. tcs(tcName tc \<mapsto> tc)) m"

section \<open>Clause readers\<close>

lemma parseUntilKeywords_pair:
  "(v, s') = parseUntilKeywords s stop \<Longrightarrow> length (toks s') \<le> length (toks s)"
  using parseUntilKeywords_length_le [of s stop] by (cases "parseUntilKeywords s stop") auto

lemma parseTypeString_pair:
  "(v, s') = parseTypeString s \<Longrightarrow> length (toks s') \<le> length (toks s)"
  using parseTypeString_length_le [of s] by (cases "parseTypeString s") auto

text \<open>\<open>p.acceptIdent("MAX-ACCESS") || p.acceptIdent("ACCESS")\<close>\<close>

definition acceptIdent2 :: "Tokens \<Rightarrow> string \<Rightarrow> string \<Rightarrow> Tokens option" where
  "acceptIdent2 s a b = (case acceptIdent s a of Some s' \<Rightarrow> Some s' | None \<Rightarrow> acceptIdent s b)"

lemma acceptIdent2_length_less:
  "acceptIdent2 s a b = Some s' \<Longrightarrow> length (toks s') < length (toks s)"
  by (auto simp: acceptIdent2_def split: option.splits dest: acceptIdent_length_less)

text \<open>The list loop of an \<open>INDEX\<close> clause, entered after its \<open>{\<close>.\<close>

function parseIndexList :: "Tokens \<Rightarrow> string list \<Rightarrow> error + (string list \<times> Tokens)" where
  "parseIndexList s idx =
    (if Type (tok s) = TokenIdent then
       (if equalFold (Text (tok s)) ''IMPLIED'' then parseIndexList (nxt s) idx
        else (case accept (nxt s) TokenComma of
           Some s1 \<Rightarrow> parseIndexList s1 (idx @ [Text (tok s)])
         | None \<Rightarrow>
             (case accept (nxt s) TokenRBrace of
                Some s1 \<Rightarrow> Inr (idx @ [Text (tok s)], s1)
              | None \<Rightarrow> Inl (errorf (nxt s) ''expected ',' or '}' in INDEX list''))))
     else (case accept s TokenRBrace of
        Some s1 \<Rightarrow> Inr (idx, s1)
      | None \<Rightarrow> Inl (errorf s ''expected identifier in INDEX list'')))"
  by pat_completeness auto
termination
proof (relation "measure (\<lambda>(s, idx). length (toks s))", goal_cases)
  case 1
  show ?case by simp
next
  case (2 s idx)
  then show ?case by (simp add: nxt_length_less)
next
  case (3 s idx s1)
  have "length (toks s1) \<le> length (toks (nxt s))"
    using 3(3) by (rule accept_length_le)
  moreover have "length (toks (nxt s)) < length (toks s)"
    using 3(1) by (simp add: nxt_length_less)
  ultimately show ?case by simp
qed

declare parseIndexList.simps [simp del]

lemma parseIndexList_length_less:
  "parseIndexList s idx = Inr (v, s') \<Longrightarrow> length (toks s') < length (toks s)"
proof (induction s idx arbitrary: v s' rule: parseIndexList.induct)
  case (1 s idx)
  note n = nxt_length_less [of s] nxt_length_le [of s]
  show ?case
  proof (cases "Type (tok s) = TokenIdent")
    case False
    with "1.prems" have "accept s TokenRBrace = Some s'"
      by (subst (asm) parseIndexList.simps) (auto split: option.splits)
    then show ?thesis by (rule accept_length_less) simp
  next
    case True
    show ?thesis
    proof (cases "equalFold (Text (tok s)) ''IMPLIED''")
      case imp: True
      with True "1.prems" have "parseIndexList (nxt s) idx = Inr (v, s')"
        by (subst (asm) parseIndexList.simps) simp
      with "1.IH"(1) [OF True imp] have "length (toks s') < length (toks (nxt s))" by blast
      with n show ?thesis by simp
    next
      case imp: False
      show ?thesis
      proof (cases "accept (nxt s) TokenComma")
        case (Some s1)
        with True imp "1.prems" have "parseIndexList s1 (idx @ [Text (tok s)]) = Inr (v, s')"
          by (subst (asm) parseIndexList.simps) simp
        with "1.IH"(2) [OF True imp Some] have "length (toks s') < length (toks s1)" by blast
        with accept_length_le [OF Some] n show ?thesis by simp
      next
        case None
        with True imp "1.prems" have "accept (nxt s) TokenRBrace = Some s'"
          by (subst (asm) parseIndexList.simps) (auto split: option.splits)
        with accept_length_le [of "nxt s" TokenRBrace s'] n True show ?thesis by simp
      qed
    qed
  qed
qed

text \<open>The list loop of an \<open>OBJECTS\<close> clause, entered after its \<open>{\<close>.\<close>

function parseObjectsList :: "Tokens \<Rightarrow> string list \<Rightarrow> string list \<times> Tokens" where
  "parseObjectsList s objs =
    (if Type (tok s) = TokenIdent then
       (case accept (nxt s) TokenComma of
          Some s1 \<Rightarrow> parseObjectsList s1 (objs @ [Text (tok s)])
        | None \<Rightarrow> (objs @ [Text (tok s)], nxt s))
     else (objs, s))"
  by pat_completeness auto
termination
proof (relation "measure (\<lambda>(s, objs). length (toks s))", goal_cases)
  case 1
  show ?case by simp
next
  case (2 s objs s1)
  have "length (toks s1) \<le> length (toks (nxt s))"
    using 2(2) by (rule accept_length_le)
  moreover have "length (toks (nxt s)) < length (toks s)"
    using 2(1) by (simp add: nxt_length_less)
  ultimately show ?case by simp
qed

declare parseObjectsList.simps [simp del]

lemma parseObjectsList_length_le:
  "length (toks (snd (parseObjectsList s objs))) \<le> length (toks s)"
proof (induction s objs rule: parseObjectsList.induct)
  case (1 s objs)
  note n = nxt_length_le [of s]
  show ?case
  proof (cases "Type (tok s) = TokenIdent")
    case False
    then show ?thesis by (subst parseObjectsList.simps) simp
  next
    case True
    show ?thesis
    proof (cases "accept (nxt s) TokenComma")
      case None
      with True n show ?thesis by (subst parseObjectsList.simps) simp
    next
      case (Some s1)
      with "1.IH" [OF True Some] accept_length_le [OF Some] n True show ?thesis
        by (subst parseObjectsList.simps) simp
    qed
  qed
qed

lemma parseObjectsList_pair:
  "(v, s') = parseObjectsList s objs \<Longrightarrow> length (toks s') \<le> length (toks s)"
  using parseObjectsList_length_le [of s objs] by (cases "parseObjectsList s objs") auto

definition quote :: string where
  "quote = [CHR 0x27]"

text \<open>
  The clause loop of \<open>OBJECT-TYPE\<close>. The source tests \<open>STATUS\<close> and
  \<open>MAX-ACCESS\<close>/\<open>ACCESS\<close> a second time after \<open>INDEX\<close>; on the same token those tests
  repeat ones that have just failed, so they never fire and are left out. The final
  \<open>if p.tok.Type != TokenEOF\<close> is always true where it stands.
\<close>

function parseObjectTypeClauses ::
  "string \<Rightarrow> ObjectTypeIR \<Rightarrow> Tokens \<Rightarrow> error + (ObjectTypeIR \<times> OidRef \<times> Tokens)" where
  "parseObjectTypeClauses ident obj s =
    (if Type (tok s) = TokenEOF
       then Inl (errorf s (''unexpected EOF in OBJECT-TYPE for '' @ ident))
     else (case acceptIdent s ''SYNTAX'' of
        Some s1 \<Rightarrow>
          (case parseTypeString s1 of
             (v, s2) \<Rightarrow> parseObjectTypeClauses ident (obj\<lparr>otSyntax := v\<rparr>) s2)
      | None \<Rightarrow>
     (case acceptIdent2 s ''MAX-ACCESS'' ''ACCESS'' of
        Some s1 \<Rightarrow>
          (case parseUntilKeywords s1 [''STATUS'', ''DESCRIPTION'', ''INDEX'', ''::=''] of
             (v, s2) \<Rightarrow> parseObjectTypeClauses ident (obj\<lparr>otAccess := v\<rparr>) s2)
      | None \<Rightarrow>
     (case acceptIdent s ''STATUS'' of
        Some s1 \<Rightarrow>
          (case parseUntilKeywords s1 [''DESCRIPTION'', ''INDEX'', ''::=''] of
             (v, s2) \<Rightarrow> parseObjectTypeClauses ident (obj\<lparr>otStatus := v\<rparr>) s2)
      | None \<Rightarrow>
     (case acceptIdent s ''DESCRIPTION'' of
        Some s1 \<Rightarrow>
          (if Type (tok s1) \<noteq> TokenString
             then Inl (errorf s1 ''expected string after DESCRIPTION'')
           else parseObjectTypeClauses ident (obj\<lparr>otDescription := Text (tok s1)\<rparr>) (nxt s1))
      | None \<Rightarrow>
     (case acceptIdent s ''INDEX'' of
        Some s1 \<Rightarrow>
          (case accept s1 TokenLBrace of
             None \<Rightarrow> Inl (errorf s1 ''expected '{' after INDEX'')
           | Some s2 \<Rightarrow>
               (case parseIndexList s2 [] of
                  Inl e \<Rightarrow> Inl e
                | Inr (idx, s3) \<Rightarrow> parseObjectTypeClauses ident (obj\<lparr>otIndex := idx\<rparr>) s3))
      | None \<Rightarrow>
     (case accept s TokenColonColonEq of
        Some s1 \<Rightarrow>
          (case parseBracedOid s1 (''expected '{' after '::=' in OBJECT-TYPE'')
                  ''expected '}' after OBJECT-TYPE OID ref'' of
             Inl e \<Rightarrow> Inl e
           | Inr (r, s2) \<Rightarrow> Inr (obj, r, s2))
      | None \<Rightarrow>
     (case accept s TokenSemicolon of
        Some s1 \<Rightarrow> parseObjectTypeClauses ident obj s1
      | None \<Rightarrow> parseObjectTypeClauses ident obj (nxt s)))))))))"
  by pat_completeness auto
termination
  by (relation "measure (\<lambda>(ident, obj, s). length (toks s))")
    (auto simp: nxt_length_less
      dest!: acceptIdent_length_less acceptIdent2_length_less accept_length_less
        parseTypeString_pair parseUntilKeywords_pair parseIndexList_length_less
      intro: le_less_trans [OF nxt_length_le])

declare parseObjectTypeClauses.simps [simp del]

lemma parseTypeString_eq_le:
  "parseTypeString s = (v, s') \<Longrightarrow> length (toks s') \<le> length (toks s)"
  using parseTypeString_length_le [of s] by simp

lemma parseUntilKeywords_eq_le:
  "parseUntilKeywords s stop = (v, s') \<Longrightarrow> length (toks s') \<le> length (toks s)"
  using parseUntilKeywords_length_le [of s stop] by simp

lemma parseObjectsList_eq_le:
  "parseObjectsList s objs = (v, s') \<Longrightarrow> length (toks s') \<le> length (toks s)"
  using parseObjectsList_length_le [of s objs] by simp

lemma nxt_less_trans: "length (toks x) < n \<Longrightarrow> length (toks (nxt x)) < n"
  using nxt_length_le [of x] by simp

lemma nxt_le_trans: "length (toks x) \<le> n \<Longrightarrow> length (toks (nxt x)) \<le> n"
  using nxt_length_le [of x] by simp

lemmas consumed = acceptIdent_length_less acceptIdent2_length_less accept_length_less
  parseTypeString_eq_le parseUntilKeywords_eq_le parseIndexList_length_less
  parseBracedOid_length_le parseBracedParentRef_length_le parseObjectsList_eq_le

lemma parseObjectTypeClauses_length_le:
  "parseObjectTypeClauses ident obj s = Inr (obj', r, s') \<Longrightarrow> length (toks s') \<le> length (toks s)"
proof (induction s arbitrary: obj rule: measure_induct_rule [where f = "\<lambda>s. length (toks s)"])
  case (less s)
  have rec: "length (toks s') \<le> length (toks s)"
    if "parseObjectTypeClauses ident obj2 s2 = Inr (obj', r, s')"
      and "length (toks s2) < length (toks s)" for obj2 s2
    using less.IH [OF that(2) that(1)] that(2) by simp
  show ?case
    using less.prems nxt_length_le [of s]
    by (subst (asm) parseObjectTypeClauses.simps)
      (auto split: if_splits option.splits prod.splits sum.splits
        elim!: rec dest!: consumed simp: nxt_length_less intro: nxt_less_trans)
qed

text \<open>The clause loop shared by both entry forms of \<open>TEXTUAL-CONVENTION\<close>.\<close>

function parseTextualConventionClauses ::
  "TextualConventionIR \<Rightarrow> Tokens \<Rightarrow> error + (TextualConventionIR \<times> Tokens)" where
  "parseTextualConventionClauses tc s =
    (case acceptIdent s ''DISPLAY-HINT'' of
        Some s1 \<Rightarrow>
          (if Type (tok s1) = TokenString
             then parseTextualConventionClauses (tc\<lparr>tcDisplayHint := Text (tok s1)\<rparr>) (nxt s1)
           else parseTextualConventionClauses tc s1)
      | None \<Rightarrow>
     (case acceptIdent s ''STATUS'' of
        Some s1 \<Rightarrow>
          (case parseUntilKeywords s1 [''DESCRIPTION'', ''SYNTAX''] of
             (v, s2) \<Rightarrow> parseTextualConventionClauses (tc\<lparr>tcStatus := v\<rparr>) s2)
      | None \<Rightarrow>
     (case acceptIdent s ''DESCRIPTION'' of
        Some s1 \<Rightarrow>
          (if Type (tok s1) = TokenString
             then parseTextualConventionClauses (tc\<lparr>tcDescription := Text (tok s1)\<rparr>) (nxt s1)
           else parseTextualConventionClauses tc s1)
      | None \<Rightarrow>
     (case acceptIdent s ''SYNTAX'' of
        Some s1 \<Rightarrow> (case parseTypeString s1 of (v, s2) \<Rightarrow> Inr (tc\<lparr>tcSyntax := v\<rparr>, s2))
      | None \<Rightarrow>
     (if Type (tok s) = TokenEOF then Inl (errorf s ''unexpected EOF in TEXTUAL-CONVENTION'')
      else parseTextualConventionClauses tc (nxt s))))))"
  by pat_completeness auto
termination
  by (relation "measure (\<lambda>(tc, s). length (toks s))")
    (auto simp: nxt_length_less
      dest!: acceptIdent_length_less parseUntilKeywords_pair
      intro: nxt_less_trans)

declare parseTextualConventionClauses.simps [simp del]

lemma parseTextualConventionClauses_length_le:
  "parseTextualConventionClauses tc s = Inr (tc', s') \<Longrightarrow> length (toks s') \<le> length (toks s)"
proof (induction s arbitrary: tc rule: measure_induct_rule [where f = "\<lambda>s. length (toks s)"])
  case (less s)
  have rec: "length (toks s') \<le> length (toks s)"
    if "parseTextualConventionClauses tc2 s2 = Inr (tc', s')"
      and "length (toks s2) < length (toks s)" for tc2 s2
    using less.IH [OF that(2) that(1)] that(2) by simp
  show ?case
    using less.prems nxt_length_le [of s]
    by (subst (asm) parseTextualConventionClauses.simps)
      (auto split: if_splits option.splits prod.splits sum.splits
        elim!: rec dest!: consumed simp: nxt_length_less intro: nxt_less_trans)
qed

text \<open>The loop of the four group-like constructs; \<open>kind\<close> is the construct's keyword,
  which only the error messages mention.\<close>

function parseGroupClauses :: "string \<Rightarrow> Tokens \<Rightarrow> error + (string \<times> int \<times> Tokens)" where
  "parseGroupClauses kind s =
    (if Type (tok s) = TokenEOF then Inl (errorf s (''unexpected EOF in '' @ kind))
     else (case accept s TokenColonColonEq of
        Some s1 \<Rightarrow>
          parseBracedParentRef s1 (''expected '{' after '' @ kind @ '' '::='' @ quote)
            (''expected '}' after '' @ kind @ '' OID'')
      | None \<Rightarrow> parseGroupClauses kind (nxt s)))"
  by pat_completeness auto
termination
  by (relation "measure (\<lambda>(kind, s). length (toks s))") (auto simp: nxt_length_less)

declare parseGroupClauses.simps [simp del]

lemma parseGroupClauses_length_le:
  "parseGroupClauses kind s = Inr (par, i, s') \<Longrightarrow> length (toks s') \<le> length (toks s)"
proof (induction s rule: measure_induct_rule [where f = "\<lambda>s. length (toks s)"])
  case (less s)
  have rec: "length (toks s') \<le> length (toks s)"
    if "parseGroupClauses kind s2 = Inr (par, i, s')"
      and "length (toks s2) < length (toks s)" for s2
    using less.IH [OF that(2) that(1)] that(2) by simp
  show ?case
    using less.prems nxt_length_le [of s]
    by (subst (asm) parseGroupClauses.simps)
      (auto split: if_splits option.splits prod.splits sum.splits
        elim!: rec dest!: consumed simp: nxt_length_less intro: nxt_less_trans)
qed

text \<open>The clause loop of \<open>MODULE-IDENTITY\<close>.\<close>

function parseModuleIdentityClauses ::
  "ModuleIdentityIR \<Rightarrow> Tokens \<Rightarrow> error + (ModuleIdentityIR \<times> OidRef \<times> Tokens)" where
  "parseModuleIdentityClauses mi s =
    (case acceptIdent s ''LAST-UPDATED'' of
        Some s1 \<Rightarrow>
          (if Type (tok s1) = TokenString
             then parseModuleIdentityClauses (mi\<lparr>miLastUpdated := Text (tok s1)\<rparr>) (nxt s1)
           else parseModuleIdentityClauses mi s1)
      | None \<Rightarrow>
     (case acceptIdent s ''ORGANIZATION'' of
        Some s1 \<Rightarrow>
          (if Type (tok s1) = TokenString
             then parseModuleIdentityClauses (mi\<lparr>miOrganization := Text (tok s1)\<rparr>) (nxt s1)
           else parseModuleIdentityClauses mi s1)
      | None \<Rightarrow>
     (case acceptIdent s ''CONTACT-INFO'' of
        Some s1 \<Rightarrow>
          (if Type (tok s1) = TokenString
             then parseModuleIdentityClauses (mi\<lparr>miContactInfo := Text (tok s1)\<rparr>) (nxt s1)
           else parseModuleIdentityClauses mi s1)
      | None \<Rightarrow>
     (case acceptIdent s ''DESCRIPTION'' of
        Some s1 \<Rightarrow>
          (if Type (tok s1) = TokenString
             then parseModuleIdentityClauses (mi\<lparr>miDescription := Text (tok s1)\<rparr>) (nxt s1)
           else parseModuleIdentityClauses mi s1)
      | None \<Rightarrow>
     (case accept s TokenColonColonEq of
        Some s1 \<Rightarrow>
          (case parseBracedOid s1 (''expected '{' after MODULE-IDENTITY '::='' @ quote)
                  ''expected '}' after MODULE-IDENTITY OID'' of
             Inl e \<Rightarrow> Inl e
           | Inr (r, s2) \<Rightarrow> Inr (mi, r, s2))
      | None \<Rightarrow>
     (if Type (tok s) = TokenEOF then Inl (errorf s ''unexpected EOF in MODULE-IDENTITY'')
      else parseModuleIdentityClauses mi (nxt s)))))))"
  by pat_completeness auto
termination
  by (relation "measure (\<lambda>(mi, s). length (toks s))")
    (auto simp: nxt_length_less dest!: acceptIdent_length_less intro: nxt_less_trans)

declare parseModuleIdentityClauses.simps [simp del]

lemma parseModuleIdentityClauses_length_le:
  "parseModuleIdentityClauses mi s = Inr (mi', r, s') \<Longrightarrow> length (toks s') \<le> length (toks s)"
proof (induction s arbitrary: mi rule: measure_induct_rule [where f = "\<lambda>s. length (toks s)"])
  case (less s)
  have rec: "length (toks s') \<le> length (toks s)"
    if "parseModuleIdentityClauses mi2 s2 = Inr (mi', r, s')"
      and "length (toks s2) < length (toks s)" for mi2 s2
    using less.IH [OF that(2) that(1)] that(2) by simp
  show ?case
    using less.prems nxt_length_le [of s]
    by (subst (asm) parseModuleIdentityClauses.simps)
      (auto split: if_splits option.splits prod.splits sum.splits
        elim!: rec dest!: consumed simp: nxt_length_less intro: nxt_less_trans)
qed

text \<open>The clause loop of \<open>OBJECT-IDENTITY\<close>.\<close>

function parseObjectIdentityClauses ::
  "ObjectIdentityIR \<Rightarrow> Tokens \<Rightarrow> error + (ObjectIdentityIR \<times> OidRef \<times> Tokens)" where
  "parseObjectIdentityClauses oi s =
    (case acceptIdent s ''STATUS'' of
        Some s1 \<Rightarrow>
          (case parseUntilKeywords s1 [''DESCRIPTION'', ''::=''] of
             (v, s2) \<Rightarrow> parseObjectIdentityClauses (oi\<lparr>oiStatus := v\<rparr>) s2)
      | None \<Rightarrow>
     (case acceptIdent s ''DESCRIPTION'' of
        Some s1 \<Rightarrow>
          (if Type (tok s1) = TokenString
             then parseObjectIdentityClauses (oi\<lparr>oiDescription := Text (tok s1)\<rparr>) (nxt s1)
           else parseObjectIdentityClauses oi s1)
      | None \<Rightarrow>
     (case accept s TokenColonColonEq of
        Some s1 \<Rightarrow>
          (case parseBracedOid s1 (''expected '{' after OBJECT-IDENTITY '::='' @ quote)
                  ''expected '}' after OBJECT-IDENTITY OID'' of
             Inl e \<Rightarrow> Inl e
           | Inr (r, s2) \<Rightarrow> Inr (oi, r, s2))
      | None \<Rightarrow>
     (if Type (tok s) = TokenEOF then Inl (errorf s ''unexpected EOF in OBJECT-IDENTITY'')
      else parseObjectIdentityClauses oi (nxt s)))))"
  by pat_completeness auto
termination
  by (relation "measure (\<lambda>(oi, s). length (toks s))")
    (auto simp: nxt_length_less dest!: acceptIdent_length_less parseUntilKeywords_pair
      intro: nxt_less_trans)

declare parseObjectIdentityClauses.simps [simp del]

lemma parseObjectIdentityClauses_length_le:
  "parseObjectIdentityClauses oi s = Inr (oi', r, s') \<Longrightarrow> length (toks s') \<le> length (toks s)"
proof (induction s arbitrary: oi rule: measure_induct_rule [where f = "\<lambda>s. length (toks s)"])
  case (less s)
  have rec: "length (toks s') \<le> length (toks s)"
    if "parseObjectIdentityClauses oi2 s2 = Inr (oi', r, s')"
      and "length (toks s2) < length (toks s)" for oi2 s2
    using less.IH [OF that(2) that(1)] that(2) by simp
  show ?case
    using less.prems nxt_length_le [of s]
    by (subst (asm) parseObjectIdentityClauses.simps)
      (auto split: if_splits option.splits prod.splits sum.splits
        elim!: rec dest!: consumed simp: nxt_length_less intro: nxt_less_trans)
qed

text \<open>The clause loop of \<open>NOTIFICATION-TYPE\<close>.\<close>

function parseNotificationTypeClauses ::
  "NotificationTypeIR \<Rightarrow> Tokens \<Rightarrow> error + (NotificationTypeIR \<times> OidRef \<times> Tokens)" where
  "parseNotificationTypeClauses nt s =
    (case acceptIdent s ''OBJECTS'' of
        Some s1 \<Rightarrow>
          (case accept s1 TokenLBrace of
             None \<Rightarrow> Inl (errorf s1 ''expected '{' after OBJECTS'')
           | Some s2 \<Rightarrow>
               (case parseObjectsList s2 [] of
                  (objs, s3) \<Rightarrow>
                    (case accept s3 TokenRBrace of
                       None \<Rightarrow> Inl (errorf s3 ''expected '}' at end of OBJECTS list'')
                     | Some s4 \<Rightarrow>
                         parseNotificationTypeClauses (nt\<lparr>ntObjects := objs\<rparr>) s4)))
      | None \<Rightarrow>
     (case acceptIdent s ''STATUS'' of
        Some s1 \<Rightarrow>
          (case parseUntilKeywords s1 [''DESCRIPTION'', ''::=''] of
             (v, s2) \<Rightarrow> parseNotificationTypeClauses (nt\<lparr>ntStatus := v\<rparr>) s2)
      | None \<Rightarrow>
     (case acceptIdent s ''DESCRIPTION'' of
        Some s1 \<Rightarrow>
          (if Type (tok s1) = TokenString
             then parseNotificationTypeClauses (nt\<lparr>ntDescription := Text (tok s1)\<rparr>) (nxt s1)
           else parseNotificationTypeClauses nt s1)
      | None \<Rightarrow>
     (case accept s TokenColonColonEq of
        Some s1 \<Rightarrow>
          (case parseBracedOid s1 (''expected '{' after NOTIFICATION-TYPE '::='' @ quote)
                  ''expected '}' after NOTIFICATION-TYPE OID'' of
             Inl e \<Rightarrow> Inl e
           | Inr (r, s2) \<Rightarrow> Inr (nt, r, s2))
      | None \<Rightarrow>
     (if Type (tok s) = TokenEOF then Inl (errorf s ''unexpected EOF in NOTIFICATION-TYPE'')
      else parseNotificationTypeClauses nt (nxt s))))))"
  by pat_completeness auto
termination
  by (relation "measure (\<lambda>(nt, s). length (toks s))")
    (auto simp: nxt_length_less
      dest!: acceptIdent_length_less parseUntilKeywords_pair parseObjectsList_pair
        accept_length_le
      intro: nxt_less_trans)

declare parseNotificationTypeClauses.simps [simp del]

lemma parseNotificationTypeClauses_length_le:
  "parseNotificationTypeClauses nt s = Inr (nt', r, s') \<Longrightarrow> length (toks s') \<le> length (toks s)"
proof (induction s arbitrary: nt rule: measure_induct_rule [where f = "\<lambda>s. length (toks s)"])
  case (less s)
  have rec: "length (toks s') \<le> length (toks s)"
    if "parseNotificationTypeClauses nt2 s2 = Inr (nt', r, s')"
      and "length (toks s2) < length (toks s)" for nt2 s2
    using less.IH [OF that(2) that(1)] that(2) by simp
  show ?case
    using less.prems nxt_length_le [of s]
    by (subst (asm) parseNotificationTypeClauses.simps)
      (auto split: if_splits option.splits prod.splits sum.splits
        elim!: rec dest!: consumed simp: nxt_length_less intro: nxt_less_trans)
qed

section \<open>The constructs of the module body\<close>

text \<open>
  Each function below is one branch of the dispatcher in \<open>parseModule\<close>, entered with
  the declared name \<open>ident\<close> already consumed and the current token at the keyword
  that selected the branch.
\<close>

definition setLx :: "Tokens \<Rightarrow> rdParser \<Rightarrow> rdParser" where
  "setLx s p = lx_update (\<lambda>_. s) p"

definition parseObjectIdentifier :: "string \<Rightarrow> rdParser \<Rightarrow> error + rdParser" where
  "parseObjectIdentifier ident p =
    (case acceptIdent (nxt (lx p)) ''IDENTIFIER'' of
       None \<Rightarrow> Inl (errorf (nxt (lx p)) (''expected IDENTIFIER after OBJECT for '' @ ident))
     | Some s1 \<Rightarrow>
    (case accept s1 TokenColonColonEq of
       None \<Rightarrow> Inl (errorf s1 ''expected '::=' after OBJECT IDENTIFIER'')
     | Some s2 \<Rightarrow>
    (case parseBracedOid s2 ''expected '{' in OBJECT IDENTIFIER assignment''
            ''expected '}' in OBJECT IDENTIFIER assignment'' of
       Inl e \<Rightarrow> Inl e
     | Inr (r, s3) \<Rightarrow> Inr (storeObjectIdentifier ident r (setLx s3 p)))))"

definition newObjectType :: "string \<Rightarrow> ObjectTypeIR" where
  "newObjectType ident = \<lparr>otName = ident, otOID = [], otSyntax = [], otAccess = [],
     otStatus = [], otDescription = [], otIndex = []\<rparr>"

definition parseObjectType :: "string \<Rightarrow> rdParser \<Rightarrow> error + rdParser" where
  "parseObjectType ident p =
    (case parseObjectTypeClauses ident (newObjectType ident) (nxt (lx p)) of
       Inl e \<Rightarrow> Inl e
     | Inr (obj, r, s') \<Rightarrow> Inr (storeObjectType obj r (setLx s' p)))"

definition parseGroup :: "string \<Rightarrow> string \<Rightarrow> rdParser \<Rightarrow> error + rdParser" where
  "parseGroup kind ident p =
    (case parseGroupClauses kind (nxt (lx p)) of
       Inl e \<Rightarrow> Inl e
     | Inr (par, i, s') \<Rightarrow> Inr (storeGroup ident par i (setLx s' p)))"

definition newModuleIdentity :: "string \<Rightarrow> ModuleIdentityIR" where
  "newModuleIdentity ident = \<lparr>miName = ident, miOID = [], miLastUpdated = [],
     miOrganization = [], miContactInfo = [], miDescription = []\<rparr>"

definition parseModuleIdentity :: "string \<Rightarrow> rdParser \<Rightarrow> error + rdParser" where
  "parseModuleIdentity ident p =
    (case parseModuleIdentityClauses (newModuleIdentity ident) (nxt (lx p)) of
       Inl e \<Rightarrow> Inl e
     | Inr (mi, r, s') \<Rightarrow>
         Inr (storeModuleIdentity ident mi r
               (setLx s' (mdl_update (ensurePlaceholder ident) p))))"

definition newObjectIdentity :: "string \<Rightarrow> ObjectIdentityIR" where
  "newObjectIdentity ident = \<lparr>oiName = ident, oiOID = [], oiStatus = [], oiDescription = []\<rparr>"

definition parseObjectIdentity :: "string \<Rightarrow> rdParser \<Rightarrow> error + rdParser" where
  "parseObjectIdentity ident p =
    (case parseObjectIdentityClauses (newObjectIdentity ident) (nxt (lx p)) of
       Inl e \<Rightarrow> Inl e
     | Inr (oi, r, s') \<Rightarrow>
         Inr (storeObjectIdentity ident oi r
               (setLx s' (mdl_update (ensurePlaceholder ident) p))))"

definition newTextualConvention :: "string \<Rightarrow> TextualConventionIR" where
  "newTextualConvention ident = \<lparr>tcName = ident, tcDisplayHint = [], tcStatus = [],
     tcDescription = [], tcSyntax = []\<rparr>"

text \<open>Here \<open>s\<close> is the token state after the \<open>TEXTUAL-CONVENTION\<close> keyword.\<close>

definition parseTextualConvention :: "string \<Rightarrow> Tokens \<Rightarrow> rdParser \<Rightarrow> error + rdParser" where
  "parseTextualConvention ident s p =
    (case parseTextualConventionClauses (newTextualConvention ident) s of
       Inl e \<Rightarrow> Inl e
     | Inr (tc, s') \<Rightarrow> Inr (mdl_update (putTextualConvention tc) (setLx s' p)))"

definition newNotificationType :: "string \<Rightarrow> NotificationTypeIR" where
  "newNotificationType ident = \<lparr>ntName = ident, ntOID = [], ntObjects = [], ntStatus = [],
     ntDescription = []\<rparr>"

definition parseNotificationType :: "string \<Rightarrow> rdParser \<Rightarrow> error + rdParser" where
  "parseNotificationType ident p =
    (case parseNotificationTypeClauses (newNotificationType ident) (nxt (lx p)) of
       Inl e \<Rightarrow> Inl e
     | Inr (nt, r, s') \<Rightarrow> Inr (storeNotificationType nt r (setLx s' p)))"

text \<open>The dispatcher: what follows the declared name chooses the construct.\<close>

definition parseDefinition :: "string \<Rightarrow> rdParser \<Rightarrow> error + rdParser" where
  "parseDefinition ident p =
    (if isIdent (lx p) ''MACRO'' then Inr (lx_update skipDefinition p)
     else if isIdent (lx p) ''OBJECT'' then parseObjectIdentifier ident p
     else (case accept (lx p) TokenColonColonEq of
        Some s1 \<Rightarrow>
          (case acceptIdent s1 ''TEXTUAL-CONVENTION'' of
             Some s2 \<Rightarrow> parseTextualConvention ident s2 p
           | None \<Rightarrow> Inr (setLx (skipDefinition s1) p))
      | None \<Rightarrow>
          if isIdent (lx p) ''OBJECT-TYPE'' then parseObjectType ident p
          else if isIdent (lx p) ''OBJECT-GROUP'' then parseGroup ''OBJECT-GROUP'' ident p
          else if isIdent (lx p) ''NOTIFICATION-GROUP''
            then parseGroup ''NOTIFICATION-GROUP'' ident p
          else if isIdent (lx p) ''MODULE-COMPLIANCE''
            then parseGroup ''MODULE-COMPLIANCE'' ident p
          else if isIdent (lx p) ''AGENT-CAPABILITIES''
            then parseGroup ''AGENT-CAPABILITIES'' ident p
          else if isIdent (lx p) ''MODULE-IDENTITY'' then parseModuleIdentity ident p
          else if isIdent (lx p) ''OBJECT-IDENTITY'' then parseObjectIdentity ident p
          else if isIdent (lx p) ''TEXTUAL-CONVENTION''
            then parseTextualConvention ident (nxt (lx p)) p
          else if isIdent (lx p) ''NOTIFICATION-TYPE'' then parseNotificationType ident p
          else Inr (lx_update skipDefinition p)))"

lemma lx_setLx [simp]: "lx (setLx s p) = s"
  by (simp add: setLx_def)

lemma lx_addPending [simp]: "lx (addPending par i f p) = lx p"
  by (simp add: addPending_def)

lemma lx_store [simp]:
  "lx (storeObjectIdentifier ident r p) = lx p"
  "lx (storeObjectType obj r p) = lx p"
  "lx (storeGroup ident par i p) = lx p"
  "lx (storeModuleIdentity ident mi r p) = lx p"
  "lx (storeObjectIdentity ident oi r p) = lx p"
  "lx (storeNotificationType nt r p) = lx p"
  by (simp_all add: storeObjectIdentifier_def storeObjectType_def storeGroup_def
      storeModuleIdentity_def storeObjectIdentity_def storeNotificationType_def
      split: option.split)

lemmas consumed_clauses = parseObjectTypeClauses_length_le parseGroupClauses_length_le
  parseModuleIdentityClauses_length_le parseObjectIdentityClauses_length_le
  parseTextualConventionClauses_length_le parseNotificationTypeClauses_length_le

lemma parseDefinition_length_le:
  assumes "parseDefinition ident p = Inr p'"
  shows "length (toks (lx p')) \<le> length (toks (lx p))"
proof -
  note n = nxt_length_le [of "lx p"] skipDefinition_length_le [of "lx p"]
  have sk: "length (toks (skipDefinition s1)) \<le> length (toks (lx p))"
    if "length (toks s1) < length (toks (lx p))" for s1
    using skipDefinition_length_le [of s1] that by simp
  show ?thesis
    using assms n
    unfolding parseDefinition_def parseObjectIdentifier_def parseObjectType_def parseGroup_def
      parseModuleIdentity_def parseObjectIdentity_def parseTextualConvention_def
      parseNotificationType_def
    by (auto split: if_splits option.splits sum.splits prod.splits
        dest!: consumed_clauses consumed simp: sk)
qed

section \<open>The body loop and the fixed-point pass\<close>

function parseBody :: "rdParser \<Rightarrow> error + rdParser" where
  "parseBody p =
    (if Type (tok (lx p)) = TokenEOF then Inr p
     else if isIdent (lx p) ''END'' then
       (if Type (Peek (lx p)) = TokenEOF then Inr (lx_update nxt p)
        else parseBody (lx_update nxt p))
     else if Type (tok (lx p)) = TokenIdent then
       (case parseDefinition (Text (tok (lx p))) (lx_update nxt p) of
          Inl e \<Rightarrow> Inl e
        | Inr p' \<Rightarrow> parseBody p')
     else parseBody (lx_update nxt p))"
  by pat_completeness auto
termination
proof (relation "measure (\<lambda>p. length (toks (lx p)))", goal_cases)
  case 1
  show ?case by simp
next
  case (2 p)
  then show ?case by (simp add: nxt_length_less)
next
  case (3 p p')
  have "length (toks (lx p')) \<le> length (toks (lx (lx_update nxt p)))"
    using 3(4) by (rule parseDefinition_length_le)
  moreover have "length (toks (nxt (lx p))) < length (toks (lx p))"
    using 3(1) by (rule nxt_length_less)
  ultimately show ?case by simp
next
  case (4 p)
  then show ?case by (simp add: nxt_length_less)
qed

declare parseBody.simps [simp del]

text \<open>
  One pass over the pending references, in order; a closure that fires changes the module
  the later ones of the same pass see. The result is the module, the references that
  remain, and \<open>progressed\<close>.
\<close>

fun resolvePass :: "pendingRef list \<Rightarrow> ModuleIR \<Rightarrow> ModuleIR \<times> pendingRef list \<times> bool" where
  "resolvePass [] m = (m, [], False)"
| "resolvePass (pr # prs) m =
    (case NodesByName m (prParent pr) of
       Some base \<Rightarrow>
         (case resolvePass prs (applyPending pr base m) of
            (m', remaining, _) \<Rightarrow> (m', remaining, True))
     | None \<Rightarrow>
         (case resolvePass prs m of
            (m', remaining, progressed) \<Rightarrow> (m', pr # remaining, progressed)))"

lemma resolvePass_length:
  "resolvePass prs m = (m', remaining, progressed) \<Longrightarrow>
     length remaining \<le> length prs \<and> (progressed \<longrightarrow> length remaining < length prs)"
proof (induction prs arbitrary: m m' remaining progressed)
  case Nil
  then show ?case by simp
next
  case (Cons pr prs)
  show ?case
  proof (cases "NodesByName m (prParent pr)")
    case None
    obtain m2 r2 g2 where r: "resolvePass prs m = (m2, r2, g2)"
      by (metis prod_cases3)
    with Cons.prems None have "remaining = pr # r2" "progressed = g2" by auto
    with Cons.IH [OF r] show ?thesis by auto
  next
    case (Some base)
    obtain m2 r2 g2 where r: "resolvePass prs (applyPending pr base m) = (m2, r2, g2)"
      by (metis prod_cases3)
    with Cons.prems Some have "remaining = r2" by auto
    with Cons.IH [OF r] show ?thesis by auto
  qed
qed

function resolvePending :: "rdParser \<Rightarrow> rdParser" where
  "resolvePending p =
    (if pend p = [] then p
     else (case resolvePass (pend p) (mdl p) of
        (m', remaining, progressed) \<Rightarrow>
          if \<not> progressed then \<lparr>lx = lx p, mdl = m', pend = remaining\<rparr>
          else resolvePending \<lparr>lx = lx p, mdl = m', pend = remaining\<rparr>))"
  by pat_completeness auto
termination
  by (relation "measure (\<lambda>p. length (pend p))")
    (auto dest!: resolvePass_length resolvePass_length [OF sym])

declare resolvePending.simps [simp del]

section \<open>The module and the entry point\<close>

definition parseModule :: "rdParser \<Rightarrow> error + rdParser" where
  "parseModule p =
    (case expect (lx p) TokenIdent of
       None \<Rightarrow> Inl (errorf (lx p) ''expected module name'')
     | Some (nameTok, s1) \<Rightarrow>
    (case acceptIdent s1 ''DEFINITIONS'' of
       None \<Rightarrow> Inl (errorf s1 ''expected DEFINITIONS'')
     | Some s2 \<Rightarrow>
    (case accept s2 TokenColonColonEq of
       None \<Rightarrow> Inl (errorf s2 ''expected '::=' after DEFINITIONS'')
     | Some s3 \<Rightarrow>
    (case acceptIdent s3 ''BEGIN'' of
       None \<Rightarrow> Inl (errorf s3 ''expected BEGIN'')
     | Some s4 \<Rightarrow>
    (case parseBody
            \<lparr>lx = (if isIdent s4 ''IMPORTS'' then parseImports s4 else s4),
             mdl = Name_update (\<lambda>_. Text nameTok) (mdl p), pend = pend p\<rparr> of
       Inl e \<Rightarrow> Inl e
     | Inr p' \<Rightarrow> Inr (resolvePending p'))))))"

section \<open>The sweep over the source text\<close>

text \<open>\<open>strings.Split(src, "\n")\<close> and \<open>strings.Join(lines, "\n")\<close>.\<close>

fun splitLines :: "string \<Rightarrow> string list" where
  "splitLines [] = [[]]"
| "splitLines (c # cs) =
    (if c = CHR 0x0A then [] # splitLines cs
     else (case splitLines cs of [] \<Rightarrow> [[c]] | l # ls \<Rightarrow> (c # l) # ls))"

fun joinLines :: "string list \<Rightarrow> string" where
  "joinLines [] = []"
| "joinLines [l] = l"
| "joinLines (l # ls) = l @ [CHR 0x0A] @ joinLines ls"

text \<open>\<open>line[:strings.Index(line, "--")]\<close> when the line has a \<open>--\<close>, else the line.\<close>

fun cutComment :: "string \<Rightarrow> string" where
  "cutComment (a # b # cs) =
    (if a = CHR ''-'' \<and> b = CHR ''-'' then [] else a # cutComment (b # cs))"
| "cutComment cs = cs"

definition stripLineComments :: "string \<Rightarrow> string" where
  "stripLineComments src = joinLines (map cutComment (splitLines src))"

fun removeQuotedLoop :: "bool \<Rightarrow> string \<Rightarrow> string" where
  "removeQuotedLoop inq [] = []"
| "removeQuotedLoop inq (r # rs) =
    (if r = CHR 0x22 then CHR '' '' # removeQuotedLoop (\<not> inq) rs
     else if inq then
       (if r = CHR 0x0A \<or> r = CHR 0x0D then r else CHR '' '') # removeQuotedLoop inq rs
     else r # removeQuotedLoop inq rs)"

definition removeQuotedStrings :: "string \<Rightarrow> string" where
  "removeQuotedStrings src = removeQuotedLoop False src"

text \<open>\<open>unicode.IsSpace\<close> on the runes below U+0100, for \<open>strings.TrimSpace\<close>.\<close>

definition IsSpace :: "char \<Rightarrow> bool" where
  "IsSpace c = (c = CHR 0x09 \<or> c = CHR 0x0A \<or> c = CHR 0x0B \<or> c = CHR 0x0C \<or> c = CHR 0x0D
     \<or> c = CHR '' '' \<or> c = CHR 0x85 \<or> c = CHR 0xA0)"

definition TrimSpace :: "string \<Rightarrow> string" where
  "TrimSpace s = rev (dropWhile IsSpace (rev (dropWhile IsSpace s)))"

definition HasPrefix :: "string \<Rightarrow> string \<Rightarrow> bool" where
  "HasPrefix s pre = (take (length pre) s = pre)"

fun removeImportsLoop :: "bool \<Rightarrow> string list \<Rightarrow> string list" where
  "removeImportsLoop skipping [] = []"
| "removeImportsLoop skipping (l # ls) =
    (if \<not> skipping \<and> HasPrefix (TrimSpace l) ''IMPORTS'' then
       (if CHR '';'' \<in> set l then removeImportsLoop skipping ls
        else removeImportsLoop True ls)
     else if skipping then
       (if CHR '';'' \<in> set l then removeImportsLoop False ls
        else removeImportsLoop skipping ls)
     else l # removeImportsLoop skipping ls)"

definition removeImportsBlocks :: "string \<Rightarrow> string" where
  "removeImportsBlocks src = joinLines (removeImportsLoop False (splitLines src))"

text \<open>
  The four regular expressions have one shape,
  \<open>(?m)^\s*([A-Za-z][A-Za-z0-9-]*)\s+W1\s+...\s+Wn\<close>, optionally followed by \<open>\b\<close>.
  Each greedy repetition is followed by a character outside its class, so a match at a
  given start is unique and is found without backtracking: \<open>matchDeclAt\<close> returns the
  captured name and the text after the match. \<open>\s\<close> is \<open>[\t\n\f\r ]\<close>, and \<open>\b\<close> after
  a word ends the word.
\<close>

definition isReSpace :: "char \<Rightarrow> bool" where
  "isReSpace c = (c = CHR 0x09 \<or> c = CHR 0x0A \<or> c = CHR 0x0C \<or> c = CHR 0x0D \<or> c = CHR '' '')"

definition isAsciiLetter :: "char \<Rightarrow> bool" where
  "isAsciiLetter c = ((65 \<le> (of_char c :: nat) \<and> (of_char c :: nat) \<le> 90)
     \<or> (97 \<le> (of_char c :: nat) \<and> (of_char c :: nat) \<le> 122))"

definition isNameChar :: "char \<Rightarrow> bool" where
  "isNameChar c = (isAsciiLetter c \<or> IsDigit c \<or> c = CHR ''-'')"

definition isWordChar :: "char \<Rightarrow> bool" where
  "isWordChar c = (isAsciiLetter c \<or> IsDigit c \<or> c = CHR ''_'')"

fun stripPrefix :: "string \<Rightarrow> string \<Rightarrow> string option" where
  "stripPrefix [] s = Some s"
| "stripPrefix (w # ws) [] = None"
| "stripPrefix (w # ws) (c # cs) = (if w = c then stripPrefix ws cs else None)"

fun matchWords :: "string list \<Rightarrow> string \<Rightarrow> string option" where
  "matchWords [] s = Some s"
| "matchWords (w # ws) [] = None"
| "matchWords (w # ws) (c # cs) =
    (if isReSpace c then
       (case stripPrefix w (dropWhile isReSpace cs) of
          Some r \<Rightarrow> matchWords ws r
        | None \<Rightarrow> None)
     else None)"

definition atWordEnd :: "string \<Rightarrow> bool" where
  "atWordEnd r = (case r of [] \<Rightarrow> True | c # _ \<Rightarrow> \<not> isWordChar c)"

definition matchDeclAt :: "string list \<Rightarrow> bool \<Rightarrow> string \<Rightarrow> (string \<times> string) option" where
  "matchDeclAt ws wb s =
    (case dropWhile isReSpace s of
       [] \<Rightarrow> None
     | c # r \<Rightarrow>
         if isAsciiLetter c then
           (case matchWords ws (dropWhile isNameChar r) of
              None \<Rightarrow> None
            | Some rest \<Rightarrow>
                if wb \<and> \<not> atWordEnd rest then None
                else Some (c # takeWhile isNameChar r, rest))
         else None)"

lemma stripPrefix_length: "stripPrefix w s = Some r \<Longrightarrow> length r \<le> length s"
  by (induction w s rule: stripPrefix.induct) (auto split: if_splits)

lemma matchWords_length: "matchWords ws s = Some r \<Longrightarrow> length r \<le> length s"
proof (induction ws s arbitrary: r rule: matchWords.induct)
  case (3 w ws c cs)
  from "3.prems" obtain r1 where sp: "isReSpace c" "stripPrefix w (dropWhile isReSpace cs) = Some r1"
    and mw: "matchWords ws r1 = Some r"
    by (auto split: if_splits option.splits)
  have "length r1 \<le> length (dropWhile isReSpace cs)"
    using sp(2) by (rule stripPrefix_length)
  moreover have "length (dropWhile isReSpace cs) \<le> length cs"
    by (rule length_dropWhile_le)
  moreover have "length r \<le> length r1"
    using "3.IH" [OF sp(1) sp(2) mw] .
  ultimately show ?case by simp
qed simp_all

lemma matchDeclAt_length:
  assumes "matchDeclAt ws wb s = Some (name, rest)"
  shows "length rest < length s"
proof -
  from assms obtain c r where d: "dropWhile isReSpace s = c # r"
    and m: "matchWords ws (dropWhile isNameChar r) = Some rest"
    by (auto simp: matchDeclAt_def split: list.splits if_splits option.splits)
  have "length rest \<le> length (dropWhile isNameChar r)"
    using m by (rule matchWords_length)
  moreover have "length (dropWhile isNameChar r) \<le> length r"
    by (rule length_dropWhile_le)
  moreover have "length (c # r) \<le> length s"
    using length_dropWhile_le [of isReSpace s] d by simp
  ultimately show ?thesis by simp
qed

text \<open>
  \<open>FindAllStringSubmatch(clean, -1)\<close>, reduced to the captured names: the leftmost match
  from each position on, where \<open>^\<close> holds at the start of the text and after a newline;
  the search resumes where a match ended.
\<close>

function findAllDecls :: "string list \<Rightarrow> bool \<Rightarrow> bool \<Rightarrow> string \<Rightarrow> string list" where
  "findAllDecls ws wb bol [] = []"
| "findAllDecls ws wb bol (c # cs) =
    (if bol then
       (case matchDeclAt ws wb (c # cs) of
          Some (name, rest) \<Rightarrow> name # findAllDecls ws wb False rest
        | None \<Rightarrow> findAllDecls ws wb (c = CHR 0x0A) cs)
     else findAllDecls ws wb (c = CHR 0x0A) cs)"
  by pat_completeness auto
termination
  by (relation "measure (\<lambda>(ws, wb, bol, s). length s)") (auto dest: matchDeclAt_length)

definition isReservedName :: "string \<Rightarrow> bool" where
  "isReservedName s = (s = ''BEGIN'' \<or> s = ''END'' \<or> s = ''DEFINITIONS'' \<or> s = ''IMPORTS'')"

text \<open>The body of each of the four loops of \<open>augmentFromSource\<close>, for one matched name.\<close>

definition sweepObjectIdentifier :: "ModuleIR \<Rightarrow> string \<Rightarrow> ModuleIR" where
  "sweepObjectIdentifier m name = ensurePlaceholder name m"

definition sweepObjectType :: "ModuleIR \<Rightarrow> string \<Rightarrow> ModuleIR" where
  "sweepObjectType m name =
    (if isReservedName name then m
     else ensurePlaceholder name
       (case ObjectsByName m name of
          None \<Rightarrow> putObject (newObjectType name) m
        | Some _ \<Rightarrow> m))"

definition sweepObjectIdentity :: "ModuleIR \<Rightarrow> string \<Rightarrow> ModuleIR" where
  "sweepObjectIdentity m name =
    (if isReservedName name then m
     else ensurePlaceholder name
       (case ObjectIdentities m name of
          None \<Rightarrow> putObjectIdentity (newObjectIdentity name) m
        | Some _ \<Rightarrow> m))"

definition sweepNotificationType :: "ModuleIR \<Rightarrow> string \<Rightarrow> ModuleIR" where
  "sweepNotificationType m name =
    (if isReservedName name then m
     else ensurePlaceholder name
       (case NotificationTypes m name of
          None \<Rightarrow> putNotification (newNotificationType name) m
        | Some _ \<Rightarrow> m))"

definition cleanSource :: "string \<Rightarrow> string" where
  "cleanSource src = removeImportsBlocks (removeQuotedStrings (stripLineComments src))"

definition reObjId :: "string \<Rightarrow> string list" where
  "reObjId clean = findAllDecls [''OBJECT'', ''IDENTIFIER'', ''::=''] False True clean"

definition reObjType :: "string \<Rightarrow> string list" where
  "reObjType clean = findAllDecls [''OBJECT-TYPE''] True True clean"

definition reObjIdentity :: "string \<Rightarrow> string list" where
  "reObjIdentity clean = findAllDecls [''OBJECT-IDENTITY''] True True clean"

definition reNotif :: "string \<Rightarrow> string list" where
  "reNotif clean = findAllDecls [''NOTIFICATION-TYPE''] True True clean"

definition augmentWith ::
  "string list \<Rightarrow> string list \<Rightarrow> string list \<Rightarrow> string list \<Rightarrow> ModuleIR \<Rightarrow> ModuleIR" where
  "augmentWith ids types identities notifs m =
     foldl sweepNotificationType
       (foldl sweepObjectIdentity
         (foldl sweepObjectType
           (foldl sweepObjectIdentifier m ids) types) identities) notifs"

definition augmentFromSource :: "string \<Rightarrow> ModuleIR \<Rightarrow> ModuleIR" where
  "augmentFromSource src m =
     augmentWith (reObjId (cleanSource src)) (reObjType (cleanSource src))
       (reObjIdentity (cleanSource src)) (reNotif (cleanSource src)) m"

definition Parse :: "string \<Rightarrow> error + ModuleIR" where
  "Parse inp =
    (case parseModule \<lparr>lx = Lex inp, mdl = initBaseOids emptyModule, pend = []\<rparr> of
       Inl e \<Rightarrow> Inl e
     | Inr p \<Rightarrow> Inr (augmentFromSource inp (mdl p)))"

section \<open>The public module and its lookup helpers (package mib_parser)\<close>

text \<open>
  A \<open>*Module\<close> may be nil, and so may each of its maps: both are options here. The values
  of the maps are the non-nil records \<open>ParseMIB\<close> stores. A lookup returns a pointer and
  \<open>ok\<close>; \<open>None\<close> stands for \<open>(nil, false)\<close> and \<open>Some v\<close> for \<open>(v, true)\<close>.
\<close>

record OidNode =
  nodeName :: string
  nodeOID :: "int list"

record ObjectType =
  objName :: string
  objOID :: "int list"
  objSyntax :: string
  objAccess :: string
  objStatus :: string
  objDescription :: string
  objIndex :: "string list"






text \<open>\<open>strings.Join\<close>, and the two renderings of an OID.\<close>

fun Join :: "string list \<Rightarrow> string \<Rightarrow> string" where
  "Join [] sep = []"
| "Join [x] sep = x"
| "Join (x # xs) sep = x @ sep @ Join xs sep"

definition oidToString :: "int list \<Rightarrow> string" where
  "oidToString oid = Join (map Sprintf_d oid) ''.''"




text \<open>\<open>OIDString\<close> and its \<open>itoa\<close>, with the loop of \<open>itoa\<close> filling its buffer from the right.\<close>

function itoaLoop :: "int \<Rightarrow> string \<Rightarrow> string" where
  "itoaLoop n buf = (if n > 0 then itoaLoop (n div 10) (digitChar (nat (n mod 10)) # buf) else buf)"
  by pat_completeness auto
termination
  by (relation "measure (\<lambda>(n, buf). nat n)") auto

declare itoaLoop.simps [simp del]

definition itoa :: "int \<Rightarrow> string" where
  "itoa n =
    (if n = 0 then ''0''
     else if n < 0 then CHR ''-'' # itoaLoop (wrap64 (- n)) []
     else itoaLoop n [])"

fun OIDStringLoop :: "nat \<Rightarrow> int list \<Rightarrow> string \<Rightarrow> string" where
  "OIDStringLoop i [] s = s"
| "OIDStringLoop i (n # ns) s = OIDStringLoop (i + 1) ns ((if i > 0 then s @ ''.'' else s) @ itoa n)"

definition OIDString :: "int list \<Rightarrow> string" where
  "OIDString oid = (if length oid = 0 then [] else OIDStringLoop 0 oid [])"

text \<open>
  The round trip of the specification, in its words: split the rendered string on
  \<open>.\<close> and parse each component as a decimal integer (\<open>None\<close> where a component is not a
  non-empty run of digits).
\<close>

fun splitOn :: "char \<Rightarrow> string \<Rightarrow> string list" where
  "splitOn sep [] = [[]]"
| "splitOn sep (c # cs) =
    (if c = sep then [] # splitOn sep cs
     else (case splitOn sep cs of [] \<Rightarrow> [[c]] | l # ls \<Rightarrow> (c # l) # ls))"

fun parseDigits :: "string \<Rightarrow> nat \<Rightarrow> nat option" where
  "parseDigits [] acc = Some acc"
| "parseDigits (c # cs) acc =
    (if IsDigit c then parseDigits cs (acc * 10 + (of_char c - 48)) else None)"

definition parseDecimal :: "string \<Rightarrow> int option" where
  "parseDecimal s = (if s = [] then None else map_option int (parseDigits s 0))"

definition parseDotted :: "string \<Rightarrow> int option list" where
  "parseDotted s = map parseDecimal (splitOn (CHR ''.'') s)"

section \<open>Scenario inputs\<close>

text \<open>The module texts the properties below are evaluated on.\<close>

definition S1_src :: string where
  "S1_src = ''FOO DEFINITIONS ::= BEGIN\<newline>END\<newline>''"

definition S3_src :: string where
  "S3_src = ''X DEFINITIONS ::= BEGIN\<newline>foo OBJECT-TYPE SYNTAX INTEGER MAX-ACCESS read-only STATUS current DESCRIPTION '' @ [CHR 0x22] @ ''d'' @ [CHR 0x22] @ '' INDEX { IMPLIED a, b } ::= { mib-2 9 }\<newline>END\<newline>''"

definition chain_src :: string where
  "chain_src = ''X DEFINITIONS ::= BEGIN\<newline>a OBJECT IDENTIFIER ::= { b 1 }\<newline>b OBJECT IDENTIFIER ::= { c 1 }\<newline>c OBJECT IDENTIFIER ::= { mib-2 7 }\<newline>END\<newline>''"

definition notif_src :: string where
  "notif_src = ''X DEFINITIONS ::= BEGIN n NOTIFICATION-TYPE ::= { mib-2 1 } END''"


definition noEnd_src :: string where
  "noEnd_src = ''FOO DEFINITIONS ::= BEGIN''"

definition noName_src :: string where
  "noName_src = ''::= BEGIN END''"

definition noDefinitions_src :: string where
  "noDefinitions_src = ''FOO BEGIN END''"

definition noAssign_src :: string where
  "noAssign_src = ''FOO DEFINITIONS BEGIN END''"

definition noBegin_src :: string where
  "noBegin_src = ''FOO DEFINITIONS ::= END''"

definition orphan_src :: string where
  "orphan_src = ''X DEFINITIONS ::= BEGIN\<newline>a OBJECT IDENTIFIER ::= { zzz 1 }\<newline>END\<newline>''"

definition semi_src :: string where
  "semi_src = ''MUMBLE x ; y z END''"

text \<open>The tokens of S3 from the first entry of its \<open>INDEX\<close> list on.\<close>

definition S3_index :: Tokens where
  "S3_index = toks_update (drop 16) (Lex S3_src)"

text \<open>
  The parser at the \<open>NOTIFICATION-TYPE\<close> keyword of \<open>notif_src\<close>, its name \<open>n\<close> read.
\<close>

definition notif_state :: rdParser where
  "notif_state = \<lparr>lx = toks_update (drop 5) (Lex notif_src), mdl = initBaseOids emptyModule,
     pend = []\<rparr>"



section \<open>Vocabulary of the properties\<close>

text \<open>
  An identifier token that reads \<open>IMPLIED\<close> in any letter case is the marker the \<open>INDEX\<close>
  loop drops; every other identifier token is a plain name.
\<close>

definition isImplied :: "Token \<Rightarrow> bool" where
  "isImplied t = (Type t = TokenIdent \<and> equalFold (Text t) ''IMPLIED'')"

definition isPlainName :: "Token \<Rightarrow> bool" where
  "isPlainName t = (Type t = TokenIdent \<and> \<not> equalFold (Text t) ''IMPLIED'')"

section \<open>Properties\<close>





lemma of_char_digitChar: "d < 10 \<Longrightarrow> (of_char (digitChar d) :: nat) = 48 + d"
  by simp

lemma digitChar_eq: "d < 10 \<Longrightarrow> (digitChar d = c) = ((of_char c :: nat) = 48 + d)"
  using of_char_digitChar [of d] of_char_eq_iff [of "digitChar d" c, where ?'a = nat]
  by (auto simp del: digitChar.simps)

lemma digitChar_props:
  assumes "d < 10"
  shows "IsDigit (digitChar d)" "of_char (digitChar d) - 48 = d" "digitChar d \<noteq> CHR ''.''"
  using assms of_char_digitChar [OF assms]
  by (simp_all add: IsDigit_def Let_def digitChar_eq del: digitChar.simps)

lemma digitChar_numeral:
  "digitChar 0 = CHR ''0''" "digitChar (Suc 0) = CHR ''1''" "digitChar 1 = CHR ''1''"
  "digitChar 2 = CHR ''2''"
  "digitChar 3 = CHR ''3''" "digitChar 4 = CHR ''4''" "digitChar 5 = CHR ''5''"
  "digitChar 6 = CHR ''6''" "digitChar 7 = CHR ''7''" "digitChar 8 = CHR ''8''"
  "digitChar 9 = CHR ''9''"
  by (simp_all add: digitChar_eq del: digitChar.simps)

lemma decimal_digits: "c \<in> set (decimal n) \<Longrightarrow> IsDigit c \<and> c \<noteq> CHR ''.''"
proof (induction n rule: decimal.induct)
  case (1 n)
  show ?case
  proof (cases "n < 10")
    case True
    with 1(2) show ?thesis
      by (subst (asm) decimal.simps) (simp add: digitChar_props del: digitChar.simps)
  next
    case False
    with 1 show ?thesis
      by (subst (asm) (2) decimal.simps) (auto simp: digitChar_props simp del: digitChar.simps)
  qed
qed

lemma decimal_nonempty: "decimal n \<noteq> []"
  by (subst decimal.simps) simp

lemma parseDigits_append:
  "parseDigits (xs @ ys) acc = (case parseDigits xs acc of None \<Rightarrow> None | Some a \<Rightarrow> parseDigits ys a)"
  by (induction xs arbitrary: acc) auto

lemma parseDigits_decimal: "parseDigits (decimal n) 0 = Some n"
proof (induction n rule: decimal.induct)
  case (1 n)
  show ?case
  proof (cases "n < 10")
    case True
    then show ?thesis
      by (subst decimal.simps) (simp add: digitChar_props del: digitChar.simps)
  next
    case False
    have "n mod 10 < 10" by simp
    with False 1 show ?thesis
      by (subst decimal.simps)
        (simp add: parseDigits_append digitChar_props del: digitChar.simps)
  qed
qed

lemma parseDecimal_decimal: "parseDecimal (decimal n) = Some (int n)"
  by (simp add: parseDecimal_def decimal_nonempty parseDigits_decimal)

lemma itoaLoop_decimal:
  "itoaLoop n buf = (if n > 0 then decimal (nat n) else []) @ buf"
proof (induction n buf rule: itoaLoop.induct)
  case (1 n buf)
  show ?case
  proof (cases "n > 0")
    case False
    then show ?thesis by (subst itoaLoop.simps) simp
  next
    case True
    note ih = 1 [OF True]
    show ?thesis
    proof (cases "n < 10")
      case lt: True
      with True have "n div 10 = 0" by simp
      moreover have "nat n < 10" using lt by simp
      then have "decimal (nat n) = [digitChar (nat n)]"
        by (subst decimal.simps) (simp del: digitChar.simps)
      ultimately show ?thesis
        using True lt ih by (subst itoaLoop.simps) (simp del: digitChar.simps)
    next
      case ge: False
      then have pos: "n div 10 > 0" by simp
      have "\<not> nat n < 10" using ge by simp
      then have "decimal (nat n) = decimal (nat n div 10) @ [digitChar (nat n mod 10)]"
        by (subst decimal.simps) (simp del: digitChar.simps)
      moreover have "nat (n div 10) = nat n div 10" "nat (n mod 10) = nat n mod 10"
        using True by (simp_all add: nat_div_distrib nat_mod_distrib)
      ultimately show ?thesis
        using True pos ih by (subst itoaLoop.simps) (simp del: digitChar.simps)
    qed
  qed
qed

lemma itoa_nonneg: "0 \<le> n \<Longrightarrow> itoa n = decimal (nat n)"
  by (auto simp: itoa_def itoaLoop_decimal decimal.simps [of 0] digitChar_numeral
      simp del: digitChar.simps)

lemma Sprintf_d_nonneg: "0 \<le> n \<Longrightarrow> Sprintf_d n = decimal (nat n)"
  by (simp add: Sprintf_d_def)

lemma itoa_chars: "itoa n \<noteq> [] \<and> CHR ''.'' \<notin> set (itoa n)"
  using decimal_digits decimal_nonempty
  by (auto simp: itoa_def itoaLoop_decimal)

lemma Sprintf_d_chars: "Sprintf_d n \<noteq> [] \<and> CHR ''.'' \<notin> set (Sprintf_d n)"
  using decimal_digits decimal_nonempty
  by (auto simp: Sprintf_d_def)

lemma OIDStringLoop_pos:
  "i > 0 \<Longrightarrow> OIDStringLoop i ns s = s @ concat (map (\<lambda>n. ''.'' @ itoa n) ns)"
  by (induction ns arbitrary: i s) simp_all

lemma Join_concat: "Join (x # xs) sep = x @ concat (map (\<lambda>y. sep @ y) xs)"
  by (induction xs arbitrary: x) simp_all

lemma OIDString_Join: "OIDString oid = Join (map itoa oid) ''.''"
proof (cases oid)
  case Nil
  then show ?thesis by (simp add: OIDString_def)
next
  case (Cons n ns)
  have "OIDStringLoop 0 (n # ns) [] = OIDStringLoop 1 ns (itoa n)" by simp
  also have "\<dots> = itoa n @ concat (map (\<lambda>n. ''.'' @ itoa n) ns)"
    by (simp add: OIDStringLoop_pos)
  also have "\<dots> = Join (map itoa (n # ns)) ''.''"
    by (simp add: Join_concat comp_def)
  finally show ?thesis using Cons by (simp add: OIDString_def)
qed

lemma splitOn_no_sep: "sep \<notin> set x \<Longrightarrow> splitOn sep x = [x]"
  by (induction x) auto

lemma splitOn_append_sep:
  "sep \<notin> set x \<Longrightarrow> splitOn sep (x @ sep # rest) = x # splitOn sep rest"
  by (induction x) auto

lemma splitOn_Join:
  "xs \<noteq> [] \<Longrightarrow> \<forall>x \<in> set xs. sep \<notin> set x \<Longrightarrow> splitOn sep (Join xs [sep]) = xs"
proof (induction xs "[sep]" rule: Join.induct)
  case 1
  then show ?case by simp
next
  case (2 x)
  then show ?case by (simp add: splitOn_no_sep)
next
  case (3 x y ys)
  then show ?case by (simp add: splitOn_append_sep)
qed

lemma Join_ends:
  "xs \<noteq> [] \<Longrightarrow> \<forall>x \<in> set xs. x \<noteq> [] \<and> c \<notin> set x \<Longrightarrow>
     Join xs sep \<noteq> [] \<and> hd (Join xs sep) \<noteq> c \<and> last (Join xs sep) \<noteq> c"
proof (induction xs sep rule: Join.induct)
  case (1 sep)
  then show ?case by simp
next
  case (2 x sep)
  then show ?case by (cases x) (auto simp: last_in_set)
next
  case (3 x y ys sep)
  then have "Join (y # ys) sep \<noteq> []" "last (Join (y # ys) sep) \<noteq> c" by auto
  with 3 show ?case by (cases x) auto
qed

text \<open>
  Claim C9. Both renderings of an OID, \<open>oidToString\<close> and \<open>OIDString\<close>, join the decimal
  renderings of the components with \<open>.\<close>; the empty OID renders as the empty string; a
  non-empty OID renders as a non-empty string that neither starts nor ends with a dot; and
  for a non-empty OID of non-negative Go integers, splitting the rendered string on \<open>.\<close>
  and parsing every component as a decimal integer gives back the OID.
\<close>

theorem oid_rendering_roundtrip:
  "oidToString [] = [] \<and> OIDString [] = []
   \<and> OIDString oid = Join (map itoa oid) ''.''
   \<and> oidToString oid = Join (map Sprintf_d oid) ''.''
   \<and> (oid \<noteq> [] \<longrightarrow>
        oidToString oid \<noteq> [] \<and> hd (oidToString oid) \<noteq> CHR ''.'' \<and> last (oidToString oid) \<noteq> CHR ''.''
        \<and> OIDString oid \<noteq> [] \<and> hd (OIDString oid) \<noteq> CHR ''.'' \<and> last (OIDString oid) \<noteq> CHR ''.'')
   \<and> (oid \<noteq> [] \<and> (\<forall>n \<in> set oid. 0 \<le> n \<and> n < 9223372036854775808) \<longrightarrow>
        parseDotted (oidToString oid) = map Some oid
        \<and> parseDotted (OIDString oid) = map Some oid)"
proof -
  have ends1: "oidToString oid \<noteq> [] \<and> hd (oidToString oid) \<noteq> CHR ''.'' \<and> last (oidToString oid) \<noteq> CHR ''.''"
    if "oid \<noteq> []"
    unfolding oidToString_def using that Sprintf_d_chars by (intro Join_ends) auto
  have ends2: "OIDString oid \<noteq> [] \<and> hd (OIDString oid) \<noteq> CHR ''.'' \<and> last (OIDString oid) \<noteq> CHR ''.''"
    if "oid \<noteq> []"
    unfolding OIDString_Join using that itoa_chars by (intro Join_ends) auto
  have rt: "parseDotted (oidToString oid) = map Some oid \<and> parseDotted (OIDString oid) = map Some oid"
    if ne: "oid \<noteq> []" and nn: "\<forall>n \<in> set oid. 0 \<le> n \<and> n < 9223372036854775808"
  proof -
    have same: "map itoa oid = map Sprintf_d oid"
      using nn by (simp add: itoa_nonneg Sprintf_d_nonneg)
    have "splitOn (CHR ''.'') (Join (map Sprintf_d oid) ''.'') = map Sprintf_d oid"
      using ne Sprintf_d_chars by (intro splitOn_Join) auto
    moreover have "map parseDecimal (map Sprintf_d oid) = map Some oid"
      using nn by (simp add: Sprintf_d_nonneg parseDecimal_decimal)
    ultimately show ?thesis
      by (simp add: parseDotted_def oidToString_def OIDString_Join same)
  qed
  show ?thesis
    using ends1 ends2 rt by (simp add: OIDString_Join oidToString_def)
qed

theorem oid_rendering_roundtrip_witness:
  "[1, 3, 6, 1, 2, 1, 9] \<noteq> ([] :: int list)
   \<and> list_all (\<lambda>n. 0 \<le> n \<and> n < 9223372036854775808) [1, 3, 6, 1, 2, 1, 9 :: int]
   \<and> oidToString [1, 3, 6, 1, 2, 1, 9] = ''1.3.6.1.2.1.9''
   \<and> OIDString [1, 3, 6, 1, 2, 1, 9] = ''1.3.6.1.2.1.9''
   \<and> parseDotted ''1.3.6.1.2.1.9'' = map Some [1, 3, 6, 1, 2, 1, 9]"
proof -
  have r: "oidToString [1, 3, 6, 1, 2, 1, 9] = ''1.3.6.1.2.1.9''"
    by (simp add: oidToString_def Sprintf_d_def decimal.simps digitChar_numeral
        del: digitChar.simps)
  have i: "OIDString [1, 3, 6, 1, 2, 1, 9] = ''1.3.6.1.2.1.9''"
    by (simp add: OIDString_def itoa_def itoaLoop.simps digitChar_numeral
        del: digitChar.simps)
  have h: "[1, 3, 6, 1, 2, 1, 9] \<noteq> ([] :: int list)
      \<and> (\<forall>n \<in> set [1, 3, 6, 1, 2, 1, 9 :: int]. 0 \<le> n \<and> n < 9223372036854775808)"
    by simp
  have l: "list_all (\<lambda>n. 0 \<le> n \<and> n < 9223372036854775808) [1, 3, 6, 1, 2, 1, 9 :: int]"
    by simp
  have "parseDotted (oidToString [1, 3, 6, 1, 2, 1, 9]) = map Some [1, 3, 6, 1, 2, 1, 9]"
    using oid_rendering_roundtrip [of "[1, 3, 6, 1, 2, 1, 9]"] h by blast
  then have "parseDotted ''1.3.6.1.2.1.9'' = map Some [1, 3, 6, 1, 2, 1, 9]"
    unfolding r .
  with h l r i show ?thesis by blast
qed

subsection \<open>Evaluation on the scenario inputs\<close>

lemmas lex_simps = Lex_def lexAll.simps Next.simps skipWhitespaceAndComments.simps skipToEol.simps
  readIdent.simps readNumber.simps readStringLoop.simps readString_def readColonAssign_def
  punct_def mk_def advance_def peekChar_def New_def isIdentStart_def isIdentRune_def
  IsLetter_def IsDigit_def wrap64_def Let_def

lemmas tok_simps = tok_def nxt_def Peek_def isIdent_def equalFold_def foldByte_def accept_def
  acceptIdent_def acceptIdent2_def expect_def errorf_def

lemmas parse_simps = parseModule_def parseBody.simps parseDefinition_def parseImports_def
  parseImportsLoop.simps skipDefinition_def skipMacroBody.simps skipBalanced.simps decDepth_def
  parseObjectIdentifier_def parseObjectType_def parseGroup_def parseModuleIdentity_def
  parseObjectIdentity_def parseTextualConvention_def parseNotificationType_def
  parseObjectTypeClauses.simps parseTextualConventionClauses.simps parseGroupClauses.simps
  parseModuleIdentityClauses.simps parseObjectIdentityClauses.simps
  parseNotificationTypeClauses.simps parseIndexList.simps parseObjectsList.simps
  parseBracedOid_def parseBracedParentRef_def parseOidAssignmentInsideBraces_def
  parseAbsolute.simps parseParentRef_def parseUntilKeywords_def parseUntilKeywordsLoop.simps
  parseTypeString_def trimSpace_def isSpaceByte_def tokenText_def Sprintf_d_def
  newObjectType_def newModuleIdentity_def newObjectIdentity_def newTextualConvention_def
  newNotificationType_def setLx_def quote_def

lemmas store_simps = storeObjectIdentifier_def storeObjectType_def storeGroup_def
  storeModuleIdentity_def storeObjectIdentity_def storeNotificationType_def
  putObject_def putModuleIdentity_def putObjectIdentity_def putNotification_def
  putTextualConvention_def addPending_def ensurePlaceholder_def setNode_def resolveOidBase_def
  applyPending_def resolvePending.simps initBaseOids_def emptyModule_def

lemmas clean_simps = cleanSource_def stripLineComments_def removeQuotedStrings_def
  removeImportsBlocks_def TrimSpace_def IsSpace_def HasPrefix_def

lemmas scan_simps = reObjId_def reObjType_def reObjIdentity_def reNotif_def matchDeclAt_def
  atWordEnd_def isReSpace_def isAsciiLetter_def isNameChar_def isWordChar_def IsDigit_def

lemmas sweep_simps = augmentFromSource_def augmentWith_def sweepObjectIdentifier_def
  sweepObjectType_def sweepObjectIdentity_def sweepNotificationType_def isReservedName_def
  ensurePlaceholder_def setNode_def putObject_def putObjectIdentity_def putNotification_def
  newObjectType_def newObjectIdentity_def newNotificationType_def

lemma S1_src_Lex: "Lex S1_src =
  \<lparr>toks =
      [\<lparr>Type = TokenIdent, Text = ''FOO'', IntVal = 0, Line = 1, Col = 1\<rparr>,
       \<lparr>Type = TokenIdent, Text = ''DEFINITIONS'', IntVal = 0, Line = 1,
          Col = 5\<rparr>,
       \<lparr>Type = TokenColonColonEq, Text = ''::='', IntVal = 0, Line = 1,
          Col = 20\<rparr>,
       \<lparr>Type = TokenIdent, Text = ''BEGIN'', IntVal = 0, Line = 1, Col = 21\<rparr>,
       \<lparr>Type = TokenIdent, Text = ''END'', IntVal = 0, Line = 2, Col = 1\<rparr>],
      eofLine = 3, eofCol = 1\<rparr>"
  by (simp add: S1_src_def lex_simps cong: prod.case_cong_weak)

lemma S1_src_clean: "cleanSource S1_src =
  ''FOO DEFINITIONS ::= BEGIN\<newline>END\<newline>''"
  by (simp add: S1_src_def clean_simps)

lemma S1_src_sweep: "(reObjId (cleanSource S1_src), reObjType (cleanSource S1_src),
    reObjIdentity (cleanSource S1_src), reNotif (cleanSource S1_src)) =
  ([], [], [], [])"
  unfolding S1_src_clean by (simp add: scan_simps)

lemma S3_src_Lex: "Lex S3_src =
  \<lparr>toks =
      [\<lparr>Type = TokenIdent, Text = ''X'', IntVal = 0, Line = 1, Col = 1\<rparr>,
       \<lparr>Type = TokenIdent, Text = ''DEFINITIONS'', IntVal = 0, Line = 1,
          Col = 3\<rparr>,
       \<lparr>Type = TokenColonColonEq, Text = ''::='', IntVal = 0, Line = 1,
          Col = 18\<rparr>,
       \<lparr>Type = TokenIdent, Text = ''BEGIN'', IntVal = 0, Line = 1, Col = 19\<rparr>,
       \<lparr>Type = TokenIdent, Text = ''foo'', IntVal = 0, Line = 2, Col = 1\<rparr>,
       \<lparr>Type = TokenIdent, Text = ''OBJECT-TYPE'', IntVal = 0, Line = 2,
          Col = 5\<rparr>,
       \<lparr>Type = TokenIdent, Text = ''SYNTAX'', IntVal = 0, Line = 2, Col = 17\<rparr>,
       \<lparr>Type = TokenIdent, Text = ''INTEGER'', IntVal = 0, Line = 2,
          Col = 24\<rparr>,
       \<lparr>Type = TokenIdent, Text = ''MAX-ACCESS'', IntVal = 0, Line = 2,
          Col = 32\<rparr>,
       \<lparr>Type = TokenIdent, Text = ''read-only'', IntVal = 0, Line = 2,
          Col = 43\<rparr>,
       \<lparr>Type = TokenIdent, Text = ''STATUS'', IntVal = 0, Line = 2, Col = 53\<rparr>,
       \<lparr>Type = TokenIdent, Text = ''current'', IntVal = 0, Line = 2,
          Col = 60\<rparr>,
       \<lparr>Type = TokenIdent, Text = ''DESCRIPTION'', IntVal = 0, Line = 2,
          Col = 68\<rparr>,
       \<lparr>Type = TokenString, Text = ''d'', IntVal = 0, Line = 2, Col = 80\<rparr>,
       \<lparr>Type = TokenIdent, Text = ''INDEX'', IntVal = 0, Line = 2, Col = 84\<rparr>,
       \<lparr>Type = TokenLBrace, Text = ''{'', IntVal = 0, Line = 2, Col = 91\<rparr>,
       \<lparr>Type = TokenIdent, Text = ''IMPLIED'', IntVal = 0, Line = 2,
          Col = 92\<rparr>,
       \<lparr>Type = TokenIdent, Text = ''a'', IntVal = 0, Line = 2, Col = 100\<rparr>,
       \<lparr>Type = TokenComma, Text = '','', IntVal = 0, Line = 2, Col = 102\<rparr>,
       \<lparr>Type = TokenIdent, Text = ''b'', IntVal = 0, Line = 2, Col = 103\<rparr>,
       \<lparr>Type = TokenRBrace, Text = ''}'', IntVal = 0, Line = 2, Col = 106\<rparr>,
       \<lparr>Type = TokenColonColonEq, Text = ''::='', IntVal = 0, Line = 2,
          Col = 110\<rparr>,
       \<lparr>Type = TokenLBrace, Text = ''{'', IntVal = 0, Line = 2, Col = 112\<rparr>,
       \<lparr>Type = TokenIdent, Text = ''mib-2'', IntVal = 0, Line = 2, Col = 113\<rparr>,
       \<lparr>Type = TokenNumber, Text = [], IntVal = 9, Line = 2, Col = 119\<rparr>,
       \<lparr>Type = TokenRBrace, Text = ''}'', IntVal = 0, Line = 2, Col = 122\<rparr>,
       \<lparr>Type = TokenIdent, Text = ''END'', IntVal = 0, Line = 3, Col = 1\<rparr>],
      eofLine = 4, eofCol = 1\<rparr>"
  by (simp add: S3_src_def lex_simps cong: prod.case_cong_weak)

lemma S3_src_clean: "cleanSource S3_src =
  ''X DEFINITIONS ::= BEGIN\<newline>foo OBJECT-TYPE SYNTAX INTEGER MAX-ACCESS read-only STATUS current DESCRIPTION     INDEX { IMPLIED a, b } ::= { mib-2 9 }\<newline>END\<newline>''"
  by (simp add: S3_src_def clean_simps)

lemma S3_src_sweep: "(reObjId (cleanSource S3_src), reObjType (cleanSource S3_src),
    reObjIdentity (cleanSource S3_src), reNotif (cleanSource S3_src)) =
  ([], [''foo''], [], [])"
  unfolding S3_src_clean by (simp add: scan_simps)

lemma chain_src_Lex: "Lex chain_src =
  \<lparr>toks =
      [\<lparr>Type = TokenIdent, Text = ''X'', IntVal = 0, Line = 1, Col = 1\<rparr>,
       \<lparr>Type = TokenIdent, Text = ''DEFINITIONS'', IntVal = 0, Line = 1,
          Col = 3\<rparr>,
       \<lparr>Type = TokenColonColonEq, Text = ''::='', IntVal = 0, Line = 1,
          Col = 18\<rparr>,
       \<lparr>Type = TokenIdent, Text = ''BEGIN'', IntVal = 0, Line = 1, Col = 19\<rparr>,
       \<lparr>Type = TokenIdent, Text = ''a'', IntVal = 0, Line = 2, Col = 1\<rparr>,
       \<lparr>Type = TokenIdent, Text = ''OBJECT'', IntVal = 0, Line = 2, Col = 3\<rparr>,
       \<lparr>Type = TokenIdent, Text = ''IDENTIFIER'', IntVal = 0, Line = 2,
          Col = 10\<rparr>,
       \<lparr>Type = TokenColonColonEq, Text = ''::='', IntVal = 0, Line = 2,
          Col = 24\<rparr>,
       \<lparr>Type = TokenLBrace, Text = ''{'', IntVal = 0, Line = 2, Col = 26\<rparr>,
       \<lparr>Type = TokenIdent, Text = ''b'', IntVal = 0, Line = 2, Col = 27\<rparr>,
       \<lparr>Type = TokenNumber, Text = [], IntVal = 1, Line = 2, Col = 29\<rparr>,
       \<lparr>Type = TokenRBrace, Text = ''}'', IntVal = 0, Line = 2, Col = 32\<rparr>,
       \<lparr>Type = TokenIdent, Text = ''b'', IntVal = 0, Line = 3, Col = 1\<rparr>,
       \<lparr>Type = TokenIdent, Text = ''OBJECT'', IntVal = 0, Line = 3, Col = 3\<rparr>,
       \<lparr>Type = TokenIdent, Text = ''IDENTIFIER'', IntVal = 0, Line = 3,
          Col = 10\<rparr>,
       \<lparr>Type = TokenColonColonEq, Text = ''::='', IntVal = 0, Line = 3,
          Col = 24\<rparr>,
       \<lparr>Type = TokenLBrace, Text = ''{'', IntVal = 0, Line = 3, Col = 26\<rparr>,
       \<lparr>Type = TokenIdent, Text = ''c'', IntVal = 0, Line = 3, Col = 27\<rparr>,
       \<lparr>Type = TokenNumber, Text = [], IntVal = 1, Line = 3, Col = 29\<rparr>,
       \<lparr>Type = TokenRBrace, Text = ''}'', IntVal = 0, Line = 3, Col = 32\<rparr>,
       \<lparr>Type = TokenIdent, Text = ''c'', IntVal = 0, Line = 4, Col = 1\<rparr>,
       \<lparr>Type = TokenIdent, Text = ''OBJECT'', IntVal = 0, Line = 4, Col = 3\<rparr>,
       \<lparr>Type = TokenIdent, Text = ''IDENTIFIER'', IntVal = 0, Line = 4,
          Col = 10\<rparr>,
       \<lparr>Type = TokenColonColonEq, Text = ''::='', IntVal = 0, Line = 4,
          Col = 24\<rparr>,
       \<lparr>Type = TokenLBrace, Text = ''{'', IntVal = 0, Line = 4, Col = 26\<rparr>,
       \<lparr>Type = TokenIdent, Text = ''mib-2'', IntVal = 0, Line = 4, Col = 27\<rparr>,
       \<lparr>Type = TokenNumber, Text = [], IntVal = 7, Line = 4, Col = 33\<rparr>,
       \<lparr>Type = TokenRBrace, Text = ''}'', IntVal = 0, Line = 4, Col = 36\<rparr>,
       \<lparr>Type = TokenIdent, Text = ''END'', IntVal = 0, Line = 5, Col = 1\<rparr>],
      eofLine = 6, eofCol = 1\<rparr>"
  by (simp add: chain_src_def lex_simps cong: prod.case_cong_weak)

lemma chain_src_clean: "cleanSource chain_src =
  ''X DEFINITIONS ::= BEGIN\<newline>a OBJECT IDENTIFIER ::= { b 1 }\<newline>b OBJECT IDENTIFIER ::= { c 1 }\<newline>c OBJECT IDENTIFIER ::= { mib-2 7 }\<newline>END\<newline>''"
  by (simp add: chain_src_def clean_simps)

lemma chain_src_sweep: "(reObjId (cleanSource chain_src), reObjType (cleanSource chain_src),
    reObjIdentity (cleanSource chain_src), reNotif (cleanSource chain_src)) =
  ([''a'', ''b'', ''c''], [], [], [])"
  unfolding chain_src_clean by (simp add: scan_simps)

lemma notif_src_Lex: "Lex notif_src =
  \<lparr>toks =
      [\<lparr>Type = TokenIdent, Text = ''X'', IntVal = 0, Line = 1, Col = 1\<rparr>,
       \<lparr>Type = TokenIdent, Text = ''DEFINITIONS'', IntVal = 0, Line = 1,
          Col = 3\<rparr>,
       \<lparr>Type = TokenColonColonEq, Text = ''::='', IntVal = 0, Line = 1,
          Col = 18\<rparr>,
       \<lparr>Type = TokenIdent, Text = ''BEGIN'', IntVal = 0, Line = 1, Col = 19\<rparr>,
       \<lparr>Type = TokenIdent, Text = ''n'', IntVal = 0, Line = 1, Col = 25\<rparr>,
       \<lparr>Type = TokenIdent, Text = ''NOTIFICATION-TYPE'', IntVal = 0, Line = 1,
          Col = 27\<rparr>,
       \<lparr>Type = TokenColonColonEq, Text = ''::='', IntVal = 0, Line = 1,
          Col = 48\<rparr>,
       \<lparr>Type = TokenLBrace, Text = ''{'', IntVal = 0, Line = 1, Col = 50\<rparr>,
       \<lparr>Type = TokenIdent, Text = ''mib-2'', IntVal = 0, Line = 1, Col = 51\<rparr>,
       \<lparr>Type = TokenNumber, Text = [], IntVal = 1, Line = 1, Col = 57\<rparr>,
       \<lparr>Type = TokenRBrace, Text = ''}'', IntVal = 0, Line = 1, Col = 60\<rparr>,
       \<lparr>Type = TokenIdent, Text = ''END'', IntVal = 0, Line = 1, Col = 61\<rparr>],
      eofLine = 1, eofCol = 64\<rparr>"
  by (simp add: notif_src_def lex_simps cong: prod.case_cong_weak)

lemma notif_src_clean: "cleanSource notif_src =
  ''X DEFINITIONS ::= BEGIN n NOTIFICATION-TYPE ::= { mib-2 1 } END''"
  by (simp add: notif_src_def clean_simps)

lemma notif_src_sweep: "(reObjId (cleanSource notif_src), reObjType (cleanSource notif_src),
    reObjIdentity (cleanSource notif_src), reNotif (cleanSource notif_src)) =
  ([], [], [], [])"
  unfolding notif_src_clean by (simp add: scan_simps)




lemma noEnd_src_Lex: "Lex noEnd_src =
  \<lparr>toks =
      [\<lparr>Type = TokenIdent, Text = ''FOO'', IntVal = 0, Line = 1, Col = 1\<rparr>,
       \<lparr>Type = TokenIdent, Text = ''DEFINITIONS'', IntVal = 0, Line = 1,
          Col = 5\<rparr>,
       \<lparr>Type = TokenColonColonEq, Text = ''::='', IntVal = 0, Line = 1,
          Col = 20\<rparr>,
       \<lparr>Type = TokenIdent, Text = ''BEGIN'', IntVal = 0, Line = 1, Col = 21\<rparr>],
      eofLine = 1, eofCol = 26\<rparr>"
  by (simp add: noEnd_src_def lex_simps cong: prod.case_cong_weak)

lemma noEnd_src_clean: "cleanSource noEnd_src =
  ''FOO DEFINITIONS ::= BEGIN''"
  by (simp add: noEnd_src_def clean_simps)

lemma noEnd_src_sweep: "(reObjId (cleanSource noEnd_src), reObjType (cleanSource noEnd_src),
    reObjIdentity (cleanSource noEnd_src), reNotif (cleanSource noEnd_src)) =
  ([], [], [], [])"
  unfolding noEnd_src_clean by (simp add: scan_simps)

lemma noName_src_Lex: "Lex noName_src =
  \<lparr>toks =
      [\<lparr>Type = TokenColonColonEq, Text = ''::='', IntVal = 0, Line = 1,
          Col = 4\<rparr>,
       \<lparr>Type = TokenIdent, Text = ''BEGIN'', IntVal = 0, Line = 1, Col = 5\<rparr>,
       \<lparr>Type = TokenIdent, Text = ''END'', IntVal = 0, Line = 1, Col = 11\<rparr>],
      eofLine = 1, eofCol = 14\<rparr>"
  by (simp add: noName_src_def lex_simps cong: prod.case_cong_weak)

lemma noDefinitions_src_Lex: "Lex noDefinitions_src =
  \<lparr>toks =
      [\<lparr>Type = TokenIdent, Text = ''FOO'', IntVal = 0, Line = 1, Col = 1\<rparr>,
       \<lparr>Type = TokenIdent, Text = ''BEGIN'', IntVal = 0, Line = 1, Col = 5\<rparr>,
       \<lparr>Type = TokenIdent, Text = ''END'', IntVal = 0, Line = 1, Col = 11\<rparr>],
      eofLine = 1, eofCol = 14\<rparr>"
  by (simp add: noDefinitions_src_def lex_simps cong: prod.case_cong_weak)

lemma noAssign_src_Lex: "Lex noAssign_src =
  \<lparr>toks =
      [\<lparr>Type = TokenIdent, Text = ''FOO'', IntVal = 0, Line = 1, Col = 1\<rparr>,
       \<lparr>Type = TokenIdent, Text = ''DEFINITIONS'', IntVal = 0, Line = 1,
          Col = 5\<rparr>,
       \<lparr>Type = TokenIdent, Text = ''BEGIN'', IntVal = 0, Line = 1, Col = 17\<rparr>,
       \<lparr>Type = TokenIdent, Text = ''END'', IntVal = 0, Line = 1, Col = 23\<rparr>],
      eofLine = 1, eofCol = 26\<rparr>"
  by (simp add: noAssign_src_def lex_simps cong: prod.case_cong_weak)

lemma noBegin_src_Lex: "Lex noBegin_src =
  \<lparr>toks =
      [\<lparr>Type = TokenIdent, Text = ''FOO'', IntVal = 0, Line = 1, Col = 1\<rparr>,
       \<lparr>Type = TokenIdent, Text = ''DEFINITIONS'', IntVal = 0, Line = 1,
          Col = 5\<rparr>,
       \<lparr>Type = TokenColonColonEq, Text = ''::='', IntVal = 0, Line = 1,
          Col = 20\<rparr>,
       \<lparr>Type = TokenIdent, Text = ''END'', IntVal = 0, Line = 1, Col = 21\<rparr>],
      eofLine = 1, eofCol = 24\<rparr>"
  by (simp add: noBegin_src_def lex_simps cong: prod.case_cong_weak)

lemma semi_src_Lex: "Lex semi_src =
  \<lparr>toks =
      [\<lparr>Type = TokenIdent, Text = ''MUMBLE'', IntVal = 0, Line = 1, Col = 1\<rparr>,
       \<lparr>Type = TokenIdent, Text = ''x'', IntVal = 0, Line = 1, Col = 8\<rparr>,
       \<lparr>Type = TokenSemicolon, Text = '';'', IntVal = 0, Line = 1, Col = 11\<rparr>,
       \<lparr>Type = TokenIdent, Text = ''y'', IntVal = 0, Line = 1, Col = 12\<rparr>,
       \<lparr>Type = TokenIdent, Text = ''z'', IntVal = 0, Line = 1, Col = 14\<rparr>,
       \<lparr>Type = TokenIdent, Text = ''END'', IntVal = 0, Line = 1, Col = 16\<rparr>],
      eofLine = 1, eofCol = 19\<rparr>"
  by (simp add: semi_src_def lex_simps cong: prod.case_cong_weak)

lemma orphan_src_Lex: "Lex orphan_src =
  \<lparr>toks =
      [\<lparr>Type = TokenIdent, Text = ''X'', IntVal = 0, Line = 1, Col = 1\<rparr>,
       \<lparr>Type = TokenIdent, Text = ''DEFINITIONS'', IntVal = 0, Line = 1,
          Col = 3\<rparr>,
       \<lparr>Type = TokenColonColonEq, Text = ''::='', IntVal = 0, Line = 1,
          Col = 18\<rparr>,
       \<lparr>Type = TokenIdent, Text = ''BEGIN'', IntVal = 0, Line = 1, Col = 19\<rparr>,
       \<lparr>Type = TokenIdent, Text = ''a'', IntVal = 0, Line = 2, Col = 1\<rparr>,
       \<lparr>Type = TokenIdent, Text = ''OBJECT'', IntVal = 0, Line = 2, Col = 3\<rparr>,
       \<lparr>Type = TokenIdent, Text = ''IDENTIFIER'', IntVal = 0, Line = 2,
          Col = 10\<rparr>,
       \<lparr>Type = TokenColonColonEq, Text = ''::='', IntVal = 0, Line = 2,
          Col = 24\<rparr>,
       \<lparr>Type = TokenLBrace, Text = ''{'', IntVal = 0, Line = 2, Col = 26\<rparr>,
       \<lparr>Type = TokenIdent, Text = ''zzz'', IntVal = 0, Line = 2, Col = 27\<rparr>,
       \<lparr>Type = TokenNumber, Text = [], IntVal = 1, Line = 2, Col = 31\<rparr>,
       \<lparr>Type = TokenRBrace, Text = ''}'', IntVal = 0, Line = 2, Col = 34\<rparr>,
       \<lparr>Type = TokenIdent, Text = ''END'', IntVal = 0, Line = 3, Col = 1\<rparr>],
      eofLine = 4, eofCol = 1\<rparr>"
  by (simp add: orphan_src_def lex_simps cong: prod.case_cong_weak)

lemma orphan_src_clean: "cleanSource orphan_src =
  ''X DEFINITIONS ::= BEGIN\<newline>a OBJECT IDENTIFIER ::= { zzz 1 }\<newline>END\<newline>''"
  by (simp add: orphan_src_def clean_simps)

lemma orphan_src_sweep: "(reObjId (cleanSource orphan_src), reObjType (cleanSource orphan_src),
    reObjIdentity (cleanSource orphan_src), reNotif (cleanSource orphan_src)) =
  ([''a''], [], [], [])"
  unfolding orphan_src_clean by (simp add: scan_simps)

subsection \<open>The bootstrap names and the minimal module\<close>

lemma initBaseOids_dom:
  "dom (NodesByName (initBaseOids m)) = dom (NodesByName m) \<union>
     {''iso'', ''org'', ''dod'', ''internet'', ''mgmt'', ''mib-2'', ''private'',
      ''enterprises'', ''snmpV2'', ''snmpModules''}"
  by (auto simp: initBaseOids_def setNode_def)

text \<open>
  Claim C7. \<open>initBaseOids\<close> installs the ten bootstrap names \<open>iso\<close>, \<open>org\<close>, \<open>dod\<close>,
  \<open>internet\<close>, \<open>mgmt\<close>, \<open>mib-2\<close>, \<open>private\<close>, \<open>enterprises\<close>, \<open>snmpV2\<close> and
  \<open>snmpModules\<close> with their canonical OIDs, whatever the module held before; \<open>Parse\<close> runs
  the parser on the module \<open>initBaseOids\<close> has prepared, so the names are there before the
  first token is read. On the minimal module \<open>FOO DEFINITIONS ::= BEGIN END\<close> (scenario S1)
  the parse succeeds with the name \<open>FOO\<close>, the nodes are exactly the ten bootstrap entries,
  and every other index is empty.
\<close>

theorem bootstrap_and_minimal_module:
  "NodesByName (initBaseOids m) ''iso'' = Some [1]
   \<and> NodesByName (initBaseOids m) ''org'' = Some [1, 3]
   \<and> NodesByName (initBaseOids m) ''dod'' = Some [1, 3, 6]
   \<and> NodesByName (initBaseOids m) ''internet'' = Some [1, 3, 6, 1]
   \<and> NodesByName (initBaseOids m) ''mgmt'' = Some [1, 3, 6, 1, 2]
   \<and> NodesByName (initBaseOids m) ''mib-2'' = Some [1, 3, 6, 1, 2, 1]
   \<and> NodesByName (initBaseOids m) ''private'' = Some [1, 3, 6, 1, 4]
   \<and> NodesByName (initBaseOids m) ''enterprises'' = Some [1, 3, 6, 1, 4, 1]
   \<and> NodesByName (initBaseOids m) ''snmpV2'' = Some [1, 3, 6, 1, 6]
   \<and> NodesByName (initBaseOids m) ''snmpModules'' = Some [1, 3, 6, 1, 6, 3]
   \<and> Parse inp =
        (case parseModule \<lparr>lx = Lex inp, mdl = initBaseOids emptyModule, pend = []\<rparr> of
           Inl e \<Rightarrow> Inl e
         | Inr p \<Rightarrow> Inr (augmentFromSource inp (mdl p)))
   \<and> Parse S1_src = Inr (Name_update (\<lambda>_. ''FOO'') (initBaseOids emptyModule))
   \<and> Name (Name_update (\<lambda>_. ''FOO'') (initBaseOids emptyModule)) = ''FOO''
   \<and> dom (NodesByName (Name_update (\<lambda>_. ''FOO'') (initBaseOids emptyModule))) =
        {''iso'', ''org'', ''dod'', ''internet'', ''mgmt'', ''mib-2'', ''private'',
         ''enterprises'', ''snmpV2'', ''snmpModules''}
   \<and> ObjectsByName (Name_update (\<lambda>_. ''FOO'') (initBaseOids emptyModule)) = Map.empty
   \<and> ModuleIdentity (Name_update (\<lambda>_. ''FOO'') (initBaseOids emptyModule)) = None
   \<and> ObjectIdentities (Name_update (\<lambda>_. ''FOO'') (initBaseOids emptyModule)) = Map.empty
   \<and> TextualConventions (Name_update (\<lambda>_. ''FOO'') (initBaseOids emptyModule)) = Map.empty
   \<and> NotificationTypes (Name_update (\<lambda>_. ''FOO'') (initBaseOids emptyModule)) = Map.empty"
proof -
  have boot: "NodesByName (initBaseOids m) ''iso'' = Some [1]
      \<and> NodesByName (initBaseOids m) ''org'' = Some [1, 3]
      \<and> NodesByName (initBaseOids m) ''dod'' = Some [1, 3, 6]
      \<and> NodesByName (initBaseOids m) ''internet'' = Some [1, 3, 6, 1]
      \<and> NodesByName (initBaseOids m) ''mgmt'' = Some [1, 3, 6, 1, 2]
      \<and> NodesByName (initBaseOids m) ''mib-2'' = Some [1, 3, 6, 1, 2, 1]
      \<and> NodesByName (initBaseOids m) ''private'' = Some [1, 3, 6, 1, 4]
      \<and> NodesByName (initBaseOids m) ''enterprises'' = Some [1, 3, 6, 1, 4, 1]
      \<and> NodesByName (initBaseOids m) ''snmpV2'' = Some [1, 3, 6, 1, 6]
      \<and> NodesByName (initBaseOids m) ''snmpModules'' = Some [1, 3, 6, 1, 6, 3]"
    by (simp add: initBaseOids_def setNode_def)
  have run: "Parse S1_src = Inr (Name_update (\<lambda>_. ''FOO'') (initBaseOids emptyModule))"
    unfolding Parse_def S1_src_Lex
    using S1_src_sweep
    by (simp add: tok_simps parse_simps store_simps sweep_simps)
  have rest: "ObjectsByName (initBaseOids emptyModule) = Map.empty
      \<and> ModuleIdentity (initBaseOids emptyModule) = None
      \<and> ObjectIdentities (initBaseOids emptyModule) = Map.empty
      \<and> TextualConventions (initBaseOids emptyModule) = Map.empty
      \<and> NotificationTypes (initBaseOids emptyModule) = Map.empty"
    by (simp add: initBaseOids_def setNode_def emptyModule_def)
  have d: "dom (NodesByName (initBaseOids emptyModule)) =
      {''iso'', ''org'', ''dod'', ''internet'', ''mgmt'', ''mib-2'', ''private'',
       ''enterprises'', ''snmpV2'', ''snmpModules''}"
    by (simp add: initBaseOids_dom) (simp add: emptyModule_def)
  show ?thesis
    using boot run rest d by (simp add: Parse_def)
qed

subsection \<open>The INDEX clause\<close>

lemma toks_tok_nxt: "Type (tok s) \<noteq> TokenEOF \<Longrightarrow> toks s = tok s # toks (nxt s)"
  by (cases "toks s") (simp_all add: tok_def nxt_def)

lemma accept_toks: "accept s t = Some s' \<Longrightarrow> t \<noteq> TokenEOF \<Longrightarrow> toks s = tok s # toks s' \<and> Type (tok s) = t"
  by (auto simp: accept_def toks_tok_nxt split: if_splits)

lemma parseIndexList_used:
  "parseIndexList s idx = Inr (v, s') \<Longrightarrow>
     \<exists>used. toks s = used @ toks s' \<and> v = idx @ map Text (filter isPlainName used)
       \<and> \<not> list_ex isImplied (filter isPlainName used)"
proof (induction s idx arbitrary: v s' rule: parseIndexList.induct)
  case (1 s idx)
  show ?case
  proof (cases "Type (tok s) = TokenIdent")
    case False
    with "1.prems" have a: "accept s TokenRBrace = Some s'" and v: "v = idx"
      by (subst (asm) parseIndexList.simps; auto split: option.splits)+
    from accept_toks [OF a] have "toks s = [tok s] @ toks s'" "\<not> isPlainName (tok s)"
      by (simp_all add: isPlainName_def)
    with v show ?thesis by (intro exI [of _ "[tok s]"]) simp
  next
    case True
    then have ts: "toks s = tok s # toks (nxt s)" by (simp add: toks_tok_nxt)
    show ?thesis
    proof (cases "equalFold (Text (tok s)) ''IMPLIED''")
      case imp: True
      with True "1.prems" have "parseIndexList (nxt s) idx = Inr (v, s')"
        by (subst (asm) parseIndexList.simps) simp
      from "1.IH"(1) [OF True imp this] obtain used where
        u: "toks (nxt s) = used @ toks s'" "v = idx @ map Text (filter isPlainName used)"
          "\<not> list_ex isImplied (filter isPlainName used)"
        by blast
      from imp have "\<not> isPlainName (tok s)" by (simp add: isPlainName_def)
      with u ts show ?thesis by (intro exI [of _ "tok s # used"]) simp
    next
      case imp: False
      with True have pl: "isPlainName (tok s)" "\<not> isImplied (tok s)"
        by (simp_all add: isPlainName_def isImplied_def)
      show ?thesis
      proof (cases "accept (nxt s) TokenComma")
        case (Some s1)
        with True imp "1.prems" have "parseIndexList s1 (idx @ [Text (tok s)]) = Inr (v, s')"
          by (subst (asm) parseIndexList.simps) simp
        from "1.IH"(2) [OF True imp Some this] obtain used where
          u: "toks s1 = used @ toks s'" "v = (idx @ [Text (tok s)]) @ map Text (filter isPlainName used)"
            "\<not> list_ex isImplied (filter isPlainName used)"
          by blast
        from accept_toks [OF Some] have c: "toks (nxt s) = tok (nxt s) # toks s1"
            "\<not> isPlainName (tok (nxt s))"
          by (simp_all add: isPlainName_def)
        with u ts pl show ?thesis
          by (intro exI [of _ "tok s # tok (nxt s) # used"]) simp
      next
        case None
        with True imp "1.prems" have a: "accept (nxt s) TokenRBrace = Some s'"
            and v: "v = idx @ [Text (tok s)]"
          by (subst (asm) parseIndexList.simps; auto split: option.splits)+
        from accept_toks [OF a] have c: "toks (nxt s) = tok (nxt s) # toks s'"
            "\<not> isPlainName (tok (nxt s))"
          by (simp_all add: isPlainName_def)
        with v ts pl show ?thesis
          by (intro exI [of _ "[tok s, tok (nxt s)]"]) simp
      qed
    qed
  qed
qed

lemma equalFold_length: "equalFold a b \<Longrightarrow> length a = length b"
  by (simp add: equalFold_def split: if_splits)

lemma index_clause_step:
  assumes i: "acceptIdent s ''INDEX'' = Some s1"
    and b: "accept s1 TokenLBrace = Some s2"
    and l: "parseIndexList s2 [] = Inr (idx, s3)"
  shows "parseObjectTypeClauses ident obj s = parseObjectTypeClauses ident (obj\<lparr>otIndex := idx\<rparr>) s3"
proof -
  from i have id: "isIdent s ''INDEX''" by (simp add: acceptIdent_def split: if_splits)
  then have ty: "Type (tok s) = TokenIdent" and len: "length (Text (tok s)) = 5"
    by (auto simp: isIdent_def dest: equalFold_length)
  from len have no: "\<not> isIdent s ''SYNTAX''" "\<not> isIdent s ''MAX-ACCESS''" "\<not> isIdent s ''ACCESS''"
      "\<not> isIdent s ''STATUS''" "\<not> isIdent s ''DESCRIPTION''"
    by (auto simp: isIdent_def dest: equalFold_length)
  show ?thesis
    using i b l no ty
    by (subst parseObjectTypeClauses.simps) (simp add: acceptIdent_def acceptIdent2_def)
qed

lemma S3_Parse:
  "Parse S3_src = Inr
     ((initBaseOids emptyModule)
        \<lparr>Name := ''X'',
         NodesByName := (NodesByName (initBaseOids emptyModule))(''foo'' \<mapsto> [1, 3, 6, 1, 2, 1, 9]),
         ObjectsByName := [''foo'' \<mapsto>
           \<lparr>otName = ''foo'', otOID = [1, 3, 6, 1, 2, 1, 9], otSyntax = ''INTEGER'',
            otAccess = ''read-only'', otStatus = ''current'', otDescription = ''d'',
            otIndex = [''a'', ''b'']\<rparr>]\<rparr>)"
  unfolding Parse_def S3_src_Lex
  using S3_src_sweep
  by (simp add: tok_simps parse_simps store_simps sweep_simps)

text \<open>
  Claim C8. In the \<open>INDEX\<close> clause of an \<open>OBJECT-TYPE\<close>, whenever the list loop succeeds
  the index it returns is the index it started from followed by the texts of the plain
  names among the tokens it consumed, in their order: an identifier token that reads
  \<open>IMPLIED\<close> is consumed and stored nowhere. The clause loop stores that list in the
  \<open>index\<close> field of the object and goes on with the token after the closing brace. On
  the module of scenario S3 the parse succeeds, the object \<open>foo\<close> has the index
  \<open>["a", "b"]\<close> and the OID \<open>1.3.6.1.2.1.9\<close>, and \<open>foo\<close> is a key of the nodes.
\<close>

theorem index_drops_implied:
  "(parseIndexList s idx = Inr (v, s') \<longrightarrow>
      (\<exists>used. toks s = used @ toks s' \<and> v = idx @ map Text (filter isPlainName used)))
   \<and> isPlainName t = (Type t = TokenIdent \<and> \<not> isImplied t)
   \<and> (acceptIdent s0 ''INDEX'' = Some s1 \<and> accept s1 TokenLBrace = Some s
        \<and> parseIndexList s [] = Inr (v, s') \<longrightarrow>
      parseObjectTypeClauses ident obj s0 = parseObjectTypeClauses ident (obj\<lparr>otIndex := v\<rparr>) s')
   \<and> isl (Parse S3_src) = False
   \<and> ObjectsByName (projr (Parse S3_src)) ''foo'' = Some
        \<lparr>otName = ''foo'', otOID = [1, 3, 6, 1, 2, 1, 9], otSyntax = ''INTEGER'',
         otAccess = ''read-only'', otStatus = ''current'', otDescription = ''d'',
         otIndex = [''a'', ''b'']\<rparr>
   \<and> NodesByName (projr (Parse S3_src)) ''foo'' = Some [1, 3, 6, 1, 2, 1, 9]"
proof -
  have a: "parseIndexList s idx = Inr (v, s') \<longrightarrow>
      (\<exists>used. toks s = used @ toks s' \<and> v = idx @ map Text (filter isPlainName used))"
    using parseIndexList_used by blast
  have b: "isPlainName t = (Type t = TokenIdent \<and> \<not> isImplied t)"
    by (auto simp: isPlainName_def isImplied_def)
  have c: "acceptIdent s0 ''INDEX'' = Some s1 \<and> accept s1 TokenLBrace = Some s
        \<and> parseIndexList s [] = Inr (v, s') \<longrightarrow>
      parseObjectTypeClauses ident obj s0 = parseObjectTypeClauses ident (obj\<lparr>otIndex := v\<rparr>) s'"
    using index_clause_step by blast
  have d: "isl (Parse S3_src) = False
     \<and> ObjectsByName (projr (Parse S3_src)) ''foo'' = Some
        \<lparr>otName = ''foo'', otOID = [1, 3, 6, 1, 2, 1, 9], otSyntax = ''INTEGER'',
         otAccess = ''read-only'', otStatus = ''current'', otDescription = ''d'',
         otIndex = [''a'', ''b'']\<rparr>
     \<and> NodesByName (projr (Parse S3_src)) ''foo'' = Some [1, 3, 6, 1, 2, 1, 9]"
    unfolding S3_Parse by simp
  from a b c d show ?thesis by blast
qed

theorem index_drops_implied_witness:
  "map Text (toks S3_index) =
     [''IMPLIED'', ''a'', '','', ''b'', ''}'', ''::='', ''{'', ''mib-2'', [], ''}'', ''END'']
   \<and> parseIndexList S3_index [] = Inr ([''a'', ''b''], toks_update (drop 5) S3_index)
   \<and> (\<exists>used. toks S3_index = used @ toks (toks_update (drop 5) S3_index)
        \<and> [''a'', ''b''] = [] @ map Text (filter isPlainName used))
   \<and> isImplied (hd (toks S3_index))"
proof -
  have t: "map Text (toks S3_index) =
     [''IMPLIED'', ''a'', '','', ''b'', ''}'', ''::='', ''{'', ''mib-2'', [], ''}'', ''END'']"
    unfolding S3_index_def S3_src_Lex by simp
  have r: "parseIndexList S3_index [] = Inr ([''a'', ''b''], toks_update (drop 5) S3_index)"
    unfolding S3_index_def S3_src_Lex by (simp add: tok_simps parse_simps)
  have i: "isImplied (hd (toks S3_index))"
    unfolding S3_index_def S3_src_Lex by (simp add: isImplied_def tok_simps)
  from r index_drops_implied [of S3_index "[]" "[''a'', ''b'']" "toks_update (drop 5) S3_index"]
  have "\<exists>used. toks S3_index = used @ toks (toks_update (drop 5) S3_index)
        \<and> [''a'', ''b''] = [] @ map Text (filter isPlainName used)"
    by blast
  with t r i show ?thesis by blast
qed

subsection \<open>The NOTIFICATION-TYPE branch\<close>

lemma parseNotificationTypeClauses_name:
  "parseNotificationTypeClauses nt s = Inr (nt', r, s') \<Longrightarrow> ntName nt' = ntName nt"
proof (induction nt s rule: parseNotificationTypeClauses.induct)
  case (1 nt s)
  show ?case
    using "1.prems" "1.IH"
    by (subst (asm) parseNotificationTypeClauses.simps)
      (auto split: if_splits option.splits prod.splits sum.splits)
qed

lemma storeNotificationType_nodes:
  "NodesByName (mdl (storeNotificationType nt r p)) = NodesByName (mdl p)"
  by (simp add: storeNotificationType_def putNotification_def addPending_def
      split: option.split)

lemma storeNotificationType_index:
  "NotificationTypes (mdl (storeNotificationType nt r p)) =
     (NotificationTypes (mdl p))(ntName nt \<mapsto>
        nt\<lparr>ntOID := (if refHasAbs r then refAbs r
                      else case resolveOidBase (mdl p) (refParent r) of
                             Some base \<Rightarrow> base @ [refIndex r]
                           | None \<Rightarrow> ntOID nt)\<rparr>)"
  by (simp add: storeNotificationType_def putNotification_def addPending_def
      split: option.split)

lemma notif_Parse:
  "Parse notif_src = Inr
     ((initBaseOids emptyModule)
        \<lparr>Name := ''X'',
         NotificationTypes := [''n'' \<mapsto>
           \<lparr>ntName = ''n'', ntOID = [1, 3, 6, 1, 2, 1, 1], ntObjects = [], ntStatus = [],
            ntDescription = []\<rparr>]\<rparr>)"
  unfolding Parse_def notif_src_Lex
  using notif_src_sweep
  by (simp add: tok_simps parse_simps store_simps sweep_simps)

text \<open>
  Claim C5. Storing a \<open>NOTIFICATION-TYPE\<close> declaration, at once or later through its
  pending closure, puts the record under its name in the notification index, with the
  resolved OID when there is one, and leaves the nodes as they were; so does the whole
  \<open>NOTIFICATION-TYPE\<close> branch of the parser, whose record carries the declared name. An
  \<open>OBJECT-TYPE\<close>, by contrast, has its name written to the nodes: with the absolute or
  resolved OID, or as an empty placeholder while its parent is unknown, and with the
  resolved OID when its pending closure runs. The only write of a notification name to the
  nodes is the empty placeholder of the sweep over the source text, for a name the sweep
  finds that is not reserved and not yet a node.
\<close>

theorem notification_not_in_nodes:
  "NodesByName (mdl (storeNotificationType nt r p)) = NodesByName (mdl p)
   \<and> NotificationTypes (mdl (storeNotificationType nt r p)) =
       (NotificationTypes (mdl p))(ntName nt \<mapsto>
          nt\<lparr>ntOID := (if refHasAbs r then refAbs r
                        else case resolveOidBase (mdl p) (refParent r) of
                               Some base \<Rightarrow> base @ [refIndex r]
                             | None \<Rightarrow> ntOID nt)\<rparr>)
   \<and> NodesByName (applyPending \<lparr>prParent = par, prIndex = i, prApply = ApplyNotification nt\<rparr>
         base m) = NodesByName m
   \<and> NotificationTypes (applyPending \<lparr>prParent = par, prIndex = i,
         prApply = ApplyNotification nt\<rparr> base m) =
       (NotificationTypes m)(ntName nt \<mapsto> nt\<lparr>ntOID := base @ [i]\<rparr>)
   \<and> (parseNotificationType ident p = Inr p' \<longrightarrow>
         NodesByName (mdl p') = NodesByName (mdl p)
         \<and> map_option ntName (NotificationTypes (mdl p') ident) = Some ident
         \<and> dom (NotificationTypes (mdl p')) = insert ident (dom (NotificationTypes (mdl p))))
   \<and> NodesByName (mdl (storeObjectType obj r p)) (otName obj) =
       (if refHasAbs r then Some (refAbs r)
        else case resolveOidBase (mdl p) (refParent r) of
               Some base \<Rightarrow> Some (base @ [refIndex r])
             | None \<Rightarrow> (case NodesByName (mdl p) (otName obj) of
                          None \<Rightarrow> Some []
                        | Some old \<Rightarrow> Some old))
   \<and> NodesByName (applyPending \<lparr>prParent = par, prIndex = i, prApply = ApplyObject obj\<rparr>
         base m) (otName obj) = Some (base @ [i])
   \<and> NodesByName (sweepNotificationType m name) name =
       (if isReservedName name then NodesByName m name
        else case NodesByName m name of None \<Rightarrow> Some [] | Some old \<Rightarrow> Some old)"
proof -
  have a: "NodesByName (applyPending \<lparr>prParent = par, prIndex = i,
        prApply = ApplyNotification nt\<rparr> base m) = NodesByName m"
    by (simp add: applyPending_def)
  have b: "NotificationTypes (applyPending \<lparr>prParent = par, prIndex = i,
         prApply = ApplyNotification nt\<rparr> base m) =
       (NotificationTypes m)(ntName nt \<mapsto> nt\<lparr>ntOID := base @ [i]\<rparr>)"
    by (simp add: applyPending_def)
  have c: "NodesByName (mdl p') = NodesByName (mdl p)
         \<and> map_option ntName (NotificationTypes (mdl p') ident) = Some ident
         \<and> dom (NotificationTypes (mdl p')) = insert ident (dom (NotificationTypes (mdl p)))"
    if "parseNotificationType ident p = Inr p'"
  proof -
    from that obtain nt r s' where
      cl: "parseNotificationTypeClauses (newNotificationType ident) (nxt (lx p)) = Inr (nt, r, s')"
      and p': "p' = storeNotificationType nt r (setLx s' p)"
      by (auto simp: parseNotificationType_def split: sum.splits)
    from parseNotificationTypeClauses_name [OF cl] have n: "ntName nt = ident"
      by (simp add: newNotificationType_def)
    show ?thesis
      unfolding p' storeNotificationType_nodes storeNotificationType_index
      using n by (simp add: setLx_def)
  qed
  have d: "NodesByName (mdl (storeObjectType obj r p)) (otName obj) =
       (if refHasAbs r then Some (refAbs r)
        else case resolveOidBase (mdl p) (refParent r) of
               Some base \<Rightarrow> Some (base @ [refIndex r])
             | None \<Rightarrow> (case NodesByName (mdl p) (otName obj) of
                          None \<Rightarrow> Some []
                        | Some old \<Rightarrow> Some old))"
    by (simp add: storeObjectType_def putObject_def setNode_def addPending_def
        ensurePlaceholder_def split: option.split)
  have e: "NodesByName (applyPending \<lparr>prParent = par, prIndex = i, prApply = ApplyObject obj\<rparr>
         base m) (otName obj) = Some (base @ [i])"
    by (simp add: applyPending_def setNode_def)
  have f: "NodesByName (sweepNotificationType m name) name =
       (if isReservedName name then NodesByName m name
        else case NodesByName m name of None \<Rightarrow> Some [] | Some old \<Rightarrow> Some old)"
    by (simp add: sweepNotificationType_def ensurePlaceholder_def putNotification_def
        setNode_def split: option.split)
  show ?thesis
    using storeNotificationType_nodes [of nt r p] storeNotificationType_index [of nt r p]
      a b c d e f
    by blast
qed

theorem notification_not_in_nodes_witness:
  "isl (parseNotificationType ''n'' notif_state) = False
   \<and> NodesByName (mdl (projr (parseNotificationType ''n'' notif_state))) =
       NodesByName (initBaseOids emptyModule)
   \<and> NodesByName (mdl (projr (parseNotificationType ''n'' notif_state))) ''n'' = None
   \<and> NotificationTypes (mdl (projr (parseNotificationType ''n'' notif_state))) ''n'' =
       Some \<lparr>ntName = ''n'', ntOID = [1, 3, 6, 1, 2, 1, 1], ntObjects = [], ntStatus = [],
         ntDescription = []\<rparr>
   \<and> dom (NotificationTypes (mdl (projr (parseNotificationType ''n'' notif_state)))) = {''n''}"
proof -
  obtain p' where r: "parseNotificationType ''n'' notif_state = Inr p'"
    and nt: "NotificationTypes (mdl p') ''n'' =
       Some \<lparr>ntName = ''n'', ntOID = [1, 3, 6, 1, 2, 1, 1], ntObjects = [], ntStatus = [],
         ntDescription = []\<rparr>"
    unfolding notif_state_def notif_src_Lex
    by (simp add: tok_simps parse_simps store_simps)
  have m: "mdl notif_state = initBaseOids emptyModule"
    by (simp add: notif_state_def)
  from notification_not_in_nodes [of _ _ notif_state _ _ _ _ "''n''" p'] r
  have n: "NodesByName (mdl p') = NodesByName (mdl notif_state)"
    and d: "dom (NotificationTypes (mdl p')) = insert ''n'' (dom (NotificationTypes (mdl notif_state)))"
    by blast+
  have "NodesByName (initBaseOids emptyModule) ''n'' = None"
    by (simp add: initBaseOids_def setNode_def emptyModule_def)
  moreover have "dom (NotificationTypes (initBaseOids emptyModule)) = {}"
    by (simp add: initBaseOids_def setNode_def emptyModule_def)
  ultimately show ?thesis
    using r nt n d m by simp
qed

subsection \<open>The OID of a declaration under a symbolic parent\<close>





subsection \<open>The fixed-point pass over the pending references\<close>

lemma chain_Parse:
  "Parse chain_src = Inr
     ((initBaseOids emptyModule)
        \<lparr>Name := ''X'',
         NodesByName := (NodesByName (initBaseOids emptyModule))
           (''a'' \<mapsto> [1], ''b'' \<mapsto> [1, 3, 6, 1, 2, 1, 7, 1], ''c'' \<mapsto> [1, 3, 6, 1, 2, 1, 7])\<rparr>)"
  unfolding Parse_def chain_src_Lex
  using chain_src_sweep
  by (simp add: tok_simps parse_simps store_simps sweep_simps fun_upd_twist)

lemma orphan_parseModule:
  "parseModule \<lparr>lx = Lex orphan_src, mdl = initBaseOids emptyModule, pend = []\<rparr> = Inr
     \<lparr>lx = \<lparr>toks = [], eofLine = 4, eofCol = 1\<rparr>,
      mdl = (initBaseOids emptyModule)
        \<lparr>Name := ''X'',
         NodesByName := (NodesByName (initBaseOids emptyModule))(''a'' \<mapsto> [])\<rparr>,
      pend = [\<lparr>prParent = ''zzz'', prIndex = 1, prApply = ApplyNode ''a''\<rparr>]\<rparr>"
  unfolding orphan_src_Lex
  by (simp add: tok_simps parse_simps store_simps)

lemma resolvePass_no_progress:
  "resolvePass prs m = (m', remaining, False) \<Longrightarrow>
     m' = m \<and> remaining = prs \<and> list_all (\<lambda>pr. NodesByName m (prParent pr) = None) prs"
  by (induction prs arbitrary: m m' remaining)
    (auto split: option.splits prod.splits)

lemma resolvePending_fixed:
  "list_all (\<lambda>pr. NodesByName (mdl (resolvePending p)) (prParent pr) = None)
     (pend (resolvePending p))"
proof (induction p rule: resolvePending.induct)
  case (1 p)
  show ?case
  proof (cases "pend p = []")
    case True
    then have "resolvePending p = p" by (subst resolvePending.simps) simp
    with True show ?thesis by simp
  next
    case False
    obtain m' remaining progressed where
      r: "resolvePass (pend p) (mdl p) = (m', remaining, progressed)"
      by (metis prod_cases3)
    show ?thesis
    proof (cases progressed)
      case True
      from "1.IH" [OF False r [symmetric] refl] True
      have "list_all (\<lambda>pr. NodesByName
              (mdl (resolvePending \<lparr>lx = lx p, mdl = m', pend = remaining\<rparr>)) (prParent pr) = None)
            (pend (resolvePending \<lparr>lx = lx p, mdl = m', pend = remaining\<rparr>))"
        by simp
      moreover have "resolvePending p = resolvePending \<lparr>lx = lx p, mdl = m', pend = remaining\<rparr>"
        using False r True by (subst resolvePending.simps) simp
      ultimately show ?thesis by simp
    next
      case np: False
      with r have "resolvePass (pend p) (mdl p) = (m', remaining, False)" by simp
      from resolvePass_no_progress [OF this]
      have "m' = mdl p" "remaining = pend p"
        "list_all (\<lambda>pr. NodesByName (mdl p) (prParent pr) = None) (pend p)"
        by simp_all
      moreover have "resolvePending p = \<lparr>lx = lx p, mdl = m', pend = remaining\<rparr>"
        using False r np by (subst resolvePending.simps) simp
      ultimately show ?thesis by simp
    qed
  qed
qed

text \<open>
  Claim C2. One pass fires the closure of a pending reference exactly when its parent is a
  key of the nodes, with whatever entry the key has, the empty placeholder of a name not
  yet resolved included, although \<open>resolveOidBase\<close> takes such an entry for no OID at all.
  The loop of passes always ends; the references it leaves are those whose parent is not
  a key of the nodes, and they raise no error. In \<open>chain_src\<close>, where \<open>a\<close> is declared
  under \<open>b\<close>, \<open>b\<close> under \<open>c\<close> and \<open>c\<close> under \<open>mib-2\<close>, the closure of \<open>a\<close> fires in the
  first pass on the empty placeholder of \<open>b\<close>: the parse returns \<open>a\<close> with the OID \<open>1\<close>,
  next to \<open>b = 1.3.6.1.2.1.7.1\<close>. In \<open>orphan_src\<close>, whose only declaration names an
  unknown parent, the parse succeeds and the reference stays pending.
\<close>

theorem pending_fires_on_any_entry:
  "resolvePass [pr] m =
     (case NodesByName m (prParent pr) of
        Some base \<Rightarrow> (applyPending pr base m, [], True)
      | None \<Rightarrow> (m, [pr], False))
   \<and> resolvePass [\<lparr>prParent = ''b'', prIndex = 1, prApply = ApplyNode ''a''\<rparr>]
        (setNode ''b'' [] m) = (setNode ''a'' [1] (setNode ''b'' [] m), [], True)
   \<and> resolveOidBase (setNode ''b'' [] m) ''b'' = None
   \<and> list_all (\<lambda>pr. NodesByName (mdl (resolvePending p)) (prParent pr) = None)
        (pend (resolvePending p))
   \<and> isl (Parse chain_src) = False
   \<and> NodesByName (projr (Parse chain_src)) ''a'' = Some [1]
   \<and> NodesByName (projr (Parse chain_src)) ''b'' = Some [1, 3, 6, 1, 2, 1, 7, 1]
   \<and> NodesByName (projr (Parse chain_src)) ''c'' = Some [1, 3, 6, 1, 2, 1, 7]
   \<and> isl (parseModule \<lparr>lx = Lex orphan_src, mdl = initBaseOids emptyModule, pend = []\<rparr>) = False
   \<and> pend (projr (parseModule \<lparr>lx = Lex orphan_src, mdl = initBaseOids emptyModule, pend = []\<rparr>)) =
        [\<lparr>prParent = ''zzz'', prIndex = 1, prApply = ApplyNode ''a''\<rparr>]"
proof -
  have a: "resolvePass [pr] m =
     (case NodesByName m (prParent pr) of
        Some base \<Rightarrow> (applyPending pr base m, [], True)
      | None \<Rightarrow> (m, [pr], False))"
    by (simp split: option.split)
  have b: "resolvePass [\<lparr>prParent = ''b'', prIndex = 1, prApply = ApplyNode ''a''\<rparr>]
        (setNode ''b'' [] m) = (setNode ''a'' [1] (setNode ''b'' [] m), [], True)"
    by (simp add: setNode_def applyPending_def)
  have c: "resolveOidBase (setNode ''b'' [] m) ''b'' = None"
    by (simp add: resolveOidBase_def setNode_def)
  have d: "isl (Parse chain_src) = False
   \<and> NodesByName (projr (Parse chain_src)) ''a'' = Some [1]
   \<and> NodesByName (projr (Parse chain_src)) ''b'' = Some [1, 3, 6, 1, 2, 1, 7, 1]
   \<and> NodesByName (projr (Parse chain_src)) ''c'' = Some [1, 3, 6, 1, 2, 1, 7]"
    unfolding chain_Parse by simp
  have e: "isl (parseModule \<lparr>lx = Lex orphan_src, mdl = initBaseOids emptyModule, pend = []\<rparr>) = False
   \<and> pend (projr (parseModule \<lparr>lx = Lex orphan_src, mdl = initBaseOids emptyModule, pend = []\<rparr>)) =
        [\<lparr>prParent = ''zzz'', prIndex = 1, prApply = ApplyNode ''a''\<rparr>]"
    unfolding orphan_parseModule by simp
  from a b c d e resolvePending_fixed [of p] show ?thesis by blast
qed

end
